theory Spec2Isabelle
  imports Complex_Main
begin

section \<open>JavaScript numbers\<close>

text \<open>
  The tracker of \<^verbatim>\<open>src/app.js\<close> computes with JavaScript numbers, which are IEEE 754
  doubles. A number is a finite real (one that a double represents), an infinity or
  \<^verbatim>\<open>NaN\<close>; the two zeros are not told apart, since the program never divides by a zero nor
  prints one. The result of an arithmetic operation on finite numbers is its exact result
  rounded to the nearest double, a tie going to the even significand, and an infinity from
  \<open>2^1024\<close> on. Track identities are natural numbers (\<^verbatim>\<open>nextId++\<close> is exact below \<open>2^53\<close>).
\<close>

datatype jsnum = Fin real | PInf | NInf | NaN

text \<open>Rounding to the nearest integer, a tie going to the even one.\<close>

definition rne :: "real \<Rightarrow> int" where
  "rne x = (let f = \<lfloor>x\<rfloor> in
             if x - of_int f < 1 / 2 then f
             else if 1 / 2 < x - of_int f then f + 1
             else if even f then f else f + 1)"

text \<open>
  The binary exponent of a non-zero real, not below that of the subnormal doubles, and the
  spacing of the doubles at that exponent (53 significant bits).
\<close>

definition expo :: "real \<Rightarrow> int" where
  "expo r = max \<lfloor>log 2 \<bar>r\<bar>\<rfloor> (- 1022)"

definition quantum :: "real \<Rightarrow> real" where
  "quantum r = 2 powi (expo r - 52)"

definition nearest64 :: "real \<Rightarrow> real" where
  "nearest64 r = of_int (rne (r / quantum r)) * quantum r"

definition round64 :: "real \<Rightarrow> jsnum" where
  "round64 r =
     (if r = 0 then Fin 0
      else if 2 ^ 1024 \<le> nearest64 r then PInf
      else if nearest64 r \<le> - (2 ^ 1024) then NInf
      else Fin (nearest64 r))"

text \<open>Unary minus, \<^verbatim>\<open>+\<close>, \<^verbatim>\<open>-\<close>, \<^verbatim>\<open>*\<close> and \<^verbatim>\<open><\<close> on numbers.\<close>

fun nneg :: "jsnum \<Rightarrow> jsnum" where
  "nneg (Fin a) = Fin (- a)"
| "nneg PInf = NInf"
| "nneg NInf = PInf"
| "nneg NaN = NaN"

fun nadd :: "jsnum \<Rightarrow> jsnum \<Rightarrow> jsnum" where
  "nadd (Fin a) (Fin b) = round64 (a + b)"
| "nadd NaN y = NaN"
| "nadd x NaN = NaN"
| "nadd PInf NInf = NaN"
| "nadd NInf PInf = NaN"
| "nadd PInf y = PInf"
| "nadd x PInf = PInf"
| "nadd NInf y = NInf"
| "nadd x NInf = NInf"

definition nsub :: "jsnum \<Rightarrow> jsnum \<Rightarrow> jsnum" where
  "nsub x y = nadd x (nneg y)"

fun negative :: "jsnum \<Rightarrow> bool" where
  "negative (Fin a) = (a < 0)"
| "negative NInf = True"
| "negative x = False"

fun nmul :: "jsnum \<Rightarrow> jsnum \<Rightarrow> jsnum" where
  "nmul (Fin a) (Fin b) = round64 (a * b)"
| "nmul NaN y = NaN"
| "nmul x NaN = NaN"
| "nmul x y =
     (if x = Fin 0 \<or> y = Fin 0 then NaN
      else if negative x = negative y then PInf else NInf)"

fun lt :: "jsnum \<Rightarrow> jsnum \<Rightarrow> bool" where
  "lt (Fin a) (Fin b) = (a < b)"
| "lt NaN y = False"
| "lt x NaN = False"
| "lt PInf y = False"
| "lt x NInf = False"
| "lt (Fin a) PInf = True"
| "lt NInf y = True"

section \<open>Expression vectors\<close>

text \<open>
  An expression vector is a JavaScript object from expression names to numbers: an association
  list of its own properties in the object's key order (an object has every key once), on the
  prototype of plain objects.
\<close>

type_synonym expr = "(string \<times> jsnum) list"

text \<open>\<^verbatim>\<open>Object.keys(e)\<close>.\<close>

definition keys :: "expr \<Rightarrow> string list" where
  "keys e = map fst e"

text \<open>
  \<^verbatim>\<open>e[k]\<close> read as an operand of arithmetic: for a key that \<open>e\<close> does not have the read gives
  \<^verbatim>\<open>undefined\<close> or a member of the prototype, and either is \<^verbatim>\<open>NaN\<close> as a number.
\<close>

definition component :: "expr \<Rightarrow> string \<Rightarrow> jsnum" where
  "component e k = (case map_of e k of None \<Rightarrow> NaN | Some v \<Rightarrow> v)"

text \<open>
  \<^verbatim>\<open>function emaExpressions(prev, cur, alpha=0.6) {
    if (!prev) return cur;
    const out = {};
    for (const k of Object.keys(cur)) out[k] = alpha*prev[k] + (1-alpha)*cur[k];
    return out; }\<close>
  An absent \<^verbatim>\<open>prev\<close> is \<open>None\<close>; every object, the empty one too, is truthy. The
  default of \<^verbatim>\<open>alpha\<close> serves a call without it; the call in \<^verbatim>\<open>assignTracks\<close> passes 0.6.
  The assignment \<^verbatim>\<open>out[k] = v\<close> creates the property \<open>k\<close>, except for the key
  \<^verbatim>\<open>__proto__\<close>: there it calls the setter of the prototype, which ignores a number.
\<close>

definition emaExpressions :: "expr option \<Rightarrow> expr \<Rightarrow> jsnum \<Rightarrow> expr" where
  "emaExpressions prev cur alpha =
     (case prev of
        None \<Rightarrow> cur
      | Some p \<Rightarrow>
          map (\<lambda>k. (k, nadd (nmul alpha (component p k)) (nmul (nsub (Fin 1) alpha) (component cur k))))
            (filter (\<lambda>k. k \<noteq> ''__proto__'') (keys cur)))"

text \<open>The smoother applied \<open>n\<close> times to a starting vector, with the same current vector.\<close>

fun ema_iter :: "nat \<Rightarrow> expr \<Rightarrow> expr \<Rightarrow> jsnum \<Rightarrow> expr" where
  "ema_iter 0 p cur alpha = p"
| "ema_iter (Suc n) p cur alpha = emaExpressions (Some (ema_iter n p cur alpha)) cur alpha"

section \<open>Detections, tracks and the tracker state\<close>

text \<open>
  The box of a detection holds the finite numbers the detector returns; the clock
  \<^verbatim>\<open>performance.now()\<close> is a finite number too. What the program computes from them is a
  number.
\<close>

record box =
  box_x :: real
  box_y :: real
  box_width :: real
  box_height :: real

text \<open>
  A detection as \<^verbatim>\<open>detectAllFaces(...).withFaceExpressions()\<close> returns it: its box
  (\<^verbatim>\<open>det.detection.box\<close>) and its expression vector. \<^verbatim>\<open>det.trackId\<close> is absent until
  \<^verbatim>\<open>assignTracks\<close> writes it.
\<close>

record detection =
  det_box :: box
  expressions :: expr
  trackId :: "nat option"

record point =
  pt_x :: jsnum
  pt_y :: jsnum

record track =
  cx :: jsnum
  cy :: jsnum
  lastSeen :: real
  exprEMA :: expr

text \<open>
  The globals \<^verbatim>\<open>tracks\<close> (a \<^verbatim>\<open>Map\<close>, iterated in insertion order) and \<^verbatim>\<open>nextId\<close>.
\<close>

record state =
  tracks :: "(nat \<times> track) list"
  nextId :: nat

definition init :: state where
  "init = \<lparr>tracks = [], nextId = 1\<rparr>"

text \<open>\<^verbatim>\<open>{ x: box.x + box.width/2, y: box.y + box.height/2 }\<close>.\<close>

definition centerOf :: "box \<Rightarrow> point" where
  "centerOf b = \<lparr>pt_x = nadd (Fin (box_x b)) (round64 (box_width b / 2)),
                 pt_y = nadd (Fin (box_y b)) (round64 (box_height b / 2))\<rparr>"

text \<open>
  \<^verbatim>\<open>Math.hypot(a, b)\<close>: infinite for an infinite argument, else \<^verbatim>\<open>NaN\<close> for a \<^verbatim>\<open>NaN\<close>
  argument, else the square root of the sum of the squares as a number. The language leaves
  the last digits of this value to the engine; here it is rounded correctly. The general
  theorems below use nothing of it but that it is a number.
\<close>

fun hypot :: "jsnum \<Rightarrow> jsnum \<Rightarrow> jsnum" where
  "hypot (Fin a) (Fin b) = round64 (sqrt (a\<^sup>2 + b\<^sup>2))"
| "hypot PInf y = PInf"
| "hypot NInf y = PInf"
| "hypot x PInf = PInf"
| "hypot x NInf = PInf"
| "hypot NaN y = NaN"
| "hypot x NaN = NaN"

text \<open>The distance the scan computes between a centroid and a track.\<close>

definition dist_to :: "point \<Rightarrow> track \<Rightarrow> jsnum" where
  "dist_to c t = hypot (nsub (pt_x c) (cx t)) (nsub (pt_y c) (cy t))"

text \<open>\<^verbatim>\<open>now - t.lastSeen\<close>.\<close>

definition age :: "real \<Rightarrow> track \<Rightarrow> jsnum" where
  "age now t = nsub (Fin now) (Fin (lastSeen t))"

text \<open>The test of the scan's \<^verbatim>\<open>continue\<close>: \<^verbatim>\<open>now - t.lastSeen > 1500\<close>.\<close>

definition stale :: "real \<Rightarrow> track \<Rightarrow> bool" where
  "stale now t = lt (Fin 1500) (age now t)"

text \<open>
  The inner loop of \<^verbatim>\<open>assignTracks\<close>, started with \<^verbatim>\<open>bestId = null, bestD = 99999\<close>:
  \<^verbatim>\<open>for (const [id, t] of tracks.entries()) {
    if (now - t.lastSeen > 1500) continue; // stale
    const d = Math.hypot(c.x - t.cx, c.y - t.cy);
    if (d < bestD) { bestD = d; bestId = id; } }\<close>
\<close>

fun nearest :: "real \<Rightarrow> point \<Rightarrow> (nat \<times> track) list \<Rightarrow> nat option \<times> jsnum \<Rightarrow> nat option \<times> jsnum" where
  "nearest now c [] best = best"
| "nearest now c ((i, t) # ts) (bestId, bestD) =
     (if stale now t then nearest now c ts (bestId, bestD)
      else if lt (dist_to c t) bestD then nearest now c ts (Some i, dist_to c t)
      else nearest now c ts (bestId, bestD))"

text \<open>
  The condition of the \<^verbatim>\<open>if\<close> after the scan,
  \<^verbatim>\<open>bestId != null && bestD < Math.max(box.width, box.height)\<close>: the track it accepts, if any.
\<close>

definition matched :: "real \<Rightarrow> state \<Rightarrow> detection \<Rightarrow> nat option" where
  "matched now st det =
     (case nearest now (centerOf (det_box det)) (tracks st) (None, Fin 99999) of
        (Some b, bestD) \<Rightarrow>
          if lt bestD (Fin (max (box_width (det_box det)) (box_height (det_box det))))
          then Some b else None
      | (None, _) \<Rightarrow> None)"

text \<open>
  The branch \<^verbatim>\<open>// update existing\<close>: the object \<^verbatim>\<open>tracks.get(bestId)\<close> is changed in place,
  so the entry keeps its position in the table. The literal \<^verbatim>\<open>0.6\<close> is the double nearest
  to six tenths.
\<close>

definition updateExisting :: "real \<Rightarrow> state \<Rightarrow> detection \<Rightarrow> nat \<Rightarrow> state \<times> detection" where
  "updateExisting now st det b =
     (let c = centerOf (det_box det) in
      (st\<lparr>tracks :=
            map (\<lambda>(i, t). if i = b
                   then (i, t\<lparr>cx := pt_x c, cy := pt_y c, lastSeen := now,
                              exprEMA := emaExpressions (Some (exprEMA t)) (expressions det)
                                           (round64 (6 / 10))\<rparr>)
                   else (i, t))
              (tracks st)\<rparr>,
       det\<lparr>trackId := Some b\<rparr>))"

text \<open>\<^verbatim>\<open>Map.prototype.set\<close>: an existing key keeps its position, a new key goes last.\<close>

fun map_set :: "(nat \<times> 'v) list \<Rightarrow> nat \<Rightarrow> 'v \<Rightarrow> (nat \<times> 'v) list" where
  "map_set [] k v = [(k, v)]"
| "map_set ((i, w) # m) k v = (if i = k then (k, v) # m else (i, w) # map_set m k v)"

text \<open>The branch \<^verbatim>\<open>// new track\<close>.\<close>

definition newTrack :: "real \<Rightarrow> state \<Rightarrow> detection \<Rightarrow> state \<times> detection" where
  "newTrack now st det =
     (let c = centerOf (det_box det); i = nextId st in
      (\<lparr>tracks = map_set (tracks st) i
                   \<lparr>cx = pt_x c, cy = pt_y c, lastSeen = now, exprEMA = expressions det\<rparr>,
        nextId = i + 1\<rparr>,
       det\<lparr>trackId := Some i\<rparr>))"

text \<open>The body of the loop over the detections.\<close>

definition assignDet :: "real \<Rightarrow> state \<Rightarrow> detection \<Rightarrow> state \<times> detection" where
  "assignDet now st det =
     (case matched now st det of
        Some b \<Rightarrow> updateExisting now st det b
      | None \<Rightarrow> newTrack now st det)"

fun assignLoop :: "real \<Rightarrow> state \<Rightarrow> detection list \<Rightarrow> state \<times> detection list" where
  "assignLoop now st [] = (st, [])"
| "assignLoop now st (d # ds) =
     (case assignDet now st d of
        (st1, d1) \<Rightarrow> (case assignLoop now st1 ds of (st2, ds2) \<Rightarrow> (st2, d1 # ds2)))"

text \<open>
  \<^verbatim>\<open>// cleanup stale
  for (const [id, t] of tracks.entries()) { if (now - t.lastSeen > 3000) tracks.delete(id); }\<close>
\<close>

definition cleanup :: "real \<Rightarrow> (nat \<times> track) list \<Rightarrow> (nat \<times> track) list" where
  "cleanup now ts = filter (\<lambda>(i, t). \<not> lt (Fin 3000) (age now t)) ts"

text \<open>
  \<^verbatim>\<open>assignTracks(detections)\<close>, with the sample \<^verbatim>\<open>now = performance.now()\<close> as an argument.
  It returns the new globals and the detections with their \<^verbatim>\<open>trackId\<close> written.
\<close>

definition assignTracks :: "real \<Rightarrow> state \<Rightarrow> detection list \<Rightarrow> state \<times> detection list" where
  "assignTracks now st dets =
     (case assignLoop now st dets of
        (st1, ds1) \<Rightarrow> (st1\<lparr>tracks := cleanup now (tracks st1)\<rparr>, ds1))"

section \<open>Rendering lookup and export\<close>

text \<open>
  The vector the sidebar summary of \<^verbatim>\<open>drawBoxesAndEmojis\<close> shows for a detection:
  \<^verbatim>\<open>det.trackId && tracks.get(det.trackId)?.exprEMA || det.expressions\<close>.
  An absent \<^verbatim>\<open>trackId\<close> and the identity 0 are falsy; a track's vector is an object, so truthy.
\<close>

definition summaryExpr :: "(nat \<times> track) list \<Rightarrow> detection \<Rightarrow> expr" where
  "summaryExpr ts det =
     (case trackId det of
        None \<Rightarrow> expressions det
      | Some i \<Rightarrow>
          if i = 0 then expressions det
          else (case map_of ts i of None \<Rightarrow> expressions det | Some t \<Rightarrow> exprEMA t))"

text \<open>
  The vector the overlay loop shows:
  \<^verbatim>\<open>const id = det.trackId ?? '?';
  const em = id && tracks.get(id)?.exprEMA || det.expressions;\<close>
  The label \<^verbatim>\<open>'?'\<close> is truthy and is no key of the table.
\<close>

datatype label = Id nat | Unknown

definition overlayId :: "detection \<Rightarrow> label" where
  "overlayId det = (case trackId det of None \<Rightarrow> Unknown | Some i \<Rightarrow> Id i)"

definition overlayExpr :: "(nat \<times> track) list \<Rightarrow> detection \<Rightarrow> expr" where
  "overlayExpr ts det =
     (case overlayId det of
        Unknown \<Rightarrow> expressions det
      | Id i \<Rightarrow>
          if i = 0 then expressions det
          else (case map_of ts i of None \<Rightarrow> expressions det | Some t \<Rightarrow> exprEMA t))"







section \<open>Notions of the specification\<close>

text \<open>
  The active entries of the table (\<open>lookupCandidates\<close>): those whose
  \<open>now - lastSeenTimestamp\<close>, as the program computes it, is at most the match window of
  1500 ms, in table order.
\<close>

definition active :: "real \<Rightarrow> (nat \<times> track) list \<Rightarrow> (nat \<times> track) list" where
  "active now ts = filter (\<lambda>(i, t). \<not> lt (Fin 1500) (age now t)) ts"

text \<open>
  The candidates of a scan that starts from the distance \<open>bd\<close>: the active entries whose
  computed distance from the centroid is below \<open>bd\<close>, in table order.
\<close>

definition candidates :: "real \<Rightarrow> point \<Rightarrow> jsnum \<Rightarrow> (nat \<times> track) list \<Rightarrow> (nat \<times> track) list" where
  "candidates now c bd ts = filter (\<lambda>(i, t). lt (dist_to c t) bd) (active now ts)"

text \<open>The first entry of a list than which no entry of the list is nearer to the centroid.\<close>

definition first_nearest :: "point \<Rightarrow> (nat \<times> track) list \<Rightarrow> (nat \<times> track) option" where
  "first_nearest c cs =
     find (\<lambda>(i, t). \<forall>(j, u) \<in> set cs. \<not> lt (dist_to c u) (dist_to c t)) cs"

text \<open>The acceptance radius of a detection: \<open>max(detectionBoxWidth, detectionBoxHeight)\<close>.\<close>

definition radius :: "detection \<Rightarrow> real" where
  "radius det = max (box_width (det_box det)) (box_height (det_box det))"

text \<open>
  The invariant of the globals: the table lists its identities in increasing order (the order
  of insertion), and every identity in it is positive and below \<^verbatim>\<open>nextId\<close>, which is positive.
\<close>

definition wf :: "state \<Rightarrow> bool" where
  "wf st = (sorted_wrt (<) (map fst (tracks st)) \<and> 0 < nextId st \<and>
            (\<forall>i \<in> set (map fst (tracks st)). 0 < i \<and> i < nextId st))"

text \<open>
  What happens to identities while frames are processed: a detection is matched to a track or a
  track is created for it, and the cleanup at the end of a frame deletes tracks.
\<close>

datatype event = Created nat | Matched nat | Deleted nat

fun event_id :: "event \<Rightarrow> nat" where
  "event_id (Created i) = i"
| "event_id (Matched i) = i"
| "event_id (Deleted i) = i"

fun matchEvents :: "real \<Rightarrow> state \<Rightarrow> detection list \<Rightarrow> event list" where
  "matchEvents now st [] = []"
| "matchEvents now st (d # ds) =
     (case matched now st d of Some b \<Rightarrow> Matched b | None \<Rightarrow> Created (nextId st))
       # matchEvents now (fst (assignDet now st d)) ds"

definition deleteEvents :: "real \<Rightarrow> (nat \<times> track) list \<Rightarrow> event list" where
  "deleteEvents now ts =
     map (\<lambda>(i, t). Deleted i) (filter (\<lambda>(i, t). lt (Fin 3000) (age now t)) ts)"

definition frameEvents :: "real \<Rightarrow> state \<Rightarrow> detection list \<Rightarrow> event list" where
  "frameEvents now st ds =
     matchEvents now st ds @ deleteEvents now (tracks (fst (assignLoop now st ds)))"

text \<open>The events of a run of \<^verbatim>\<open>assignTracks\<close> over frames, each with its clock sample.\<close>

fun runEvents :: "state \<Rightarrow> (real \<times> detection list) list \<Rightarrow> event list" where
  "runEvents st [] = []"
| "runEvents st ((now, ds) # fs) =
     frameEvents now st ds @ runEvents (fst (assignTracks now st ds)) fs"

fun created_ids :: "event list \<Rightarrow> nat list" where
  "created_ids [] = []"
| "created_ids (Created i # es) = i # created_ids es"
| "created_ids (e # es) = created_ids es"

text \<open>No event after a deletion names the deleted identity.\<close>

fun no_reuse :: "event list \<Rightarrow> bool" where
  "no_reuse [] = True"
| "no_reuse (Deleted a # es) = (a \<notin> event_id ` set es \<and> no_reuse es)"
| "no_reuse (e # es) = no_reuse es"

section \<open>Example inputs\<close>

text \<open>
  Expression vectors over different key sets. The literals \<^verbatim>\<open>0.9\<close> and \<^verbatim>\<open>0.1\<close> are the
  doubles nearest to them; one half is a double.
\<close>

definition happy_only :: expr where
  "happy_only = [(''happy'', round64 (9 / 10))]"

definition happy_sad :: expr where
  "happy_sad = [(''happy'', Fin (1 / 2)), (''sad'', Fin (1 / 2))]"

text \<open>The vectors of the two frames of the specification's end-to-end scenario.\<close>

definition start_vec :: expr where
  "start_vec = [(''happy'', round64 (9 / 10)), (''neutral'', round64 (1 / 10))]"

definition const_vec :: expr where
  "const_vec = [(''happy'', Fin (1 / 2)), (''neutral'', Fin (1 / 2))]"

text \<open>A vector with the one component \<^verbatim>\<open>0.9\<close>.\<close>

definition nine_tenths :: expr where
  "nine_tenths = [(''happy'', round64 (9 / 10))]"

text \<open>The detections of the two frames of that scenario, 50 ms apart.\<close>

definition frame1_det :: detection where
  "frame1_det = \<lparr>det_box = \<lparr>box_x = 10, box_y = 10, box_width = 40, box_height = 40\<rparr>,
                  expressions = start_vec, trackId = None\<rparr>"

definition frame2_det :: detection where
  "frame2_det = \<lparr>det_box = \<lparr>box_x = 12, box_y = 11, box_width = 40, box_height = 40\<rparr>,
                  expressions = const_vec, trackId = None\<rparr>"

text \<open>A face of 50 by 50 centred at (300, 300), far from that of the scenario.\<close>

definition far_det :: detection where
  "far_det = \<lparr>det_box = \<lparr>box_x = 275, box_y = 275, box_width = 50, box_height = 50\<rparr>,
               expressions = const_vec, trackId = None\<rparr>"

definition after_frame1 :: state where
  "after_frame1 =
     \<lparr>tracks = [(1, \<lparr>cx = Fin 30, cy = Fin 30, lastSeen = 0, exprEMA = start_vec\<rparr>)],
      nextId = 2\<rparr>"

text \<open>
  One frame with two faces that do not overlap: a small one centred at (250, 100) and a large
  one centred at (100, 100).
\<close>

definition small_face :: detection where
  "small_face = \<lparr>det_box = \<lparr>box_x = 225, box_y = 75, box_width = 50, box_height = 50\<rparr>,
                  expressions = start_vec, trackId = None\<rparr>"

definition big_face :: detection where
  "big_face = \<lparr>det_box = \<lparr>box_x = 0, box_y = 0, box_width = 200, box_height = 200\<rparr>,
                expressions = const_vec, trackId = None\<rparr>"

text \<open>
  A box 200000 wide and high centred at (100000, 0), and tables whose tracks lie 100000 away
  from that centre.
\<close>

definition wide_det :: detection where
  "wide_det = \<lparr>det_box = \<lparr>box_x = 0, box_y = - 100000, box_width = 200000, box_height = 200000\<rparr>,
                expressions = start_vec, trackId = None\<rparr>"

definition far_left :: track where
  "far_left = \<lparr>cx = Fin 0, cy = Fin 0, lastSeen = 0, exprEMA = start_vec\<rparr>"

definition far_right :: track where
  "far_right = \<lparr>cx = Fin 200000, cy = Fin 0, lastSeen = 0, exprEMA = start_vec\<rparr>"

definition one_far :: state where
  "one_far = \<lparr>tracks = [(1, far_left)], nextId = 2\<rparr>"

definition two_far :: state where
  "two_far = \<lparr>tracks = [(1, far_left), (2, far_right)], nextId = 3\<rparr>"

text \<open>Two tracks at distance 5 from the centre (30, 30) of the first scenario box.\<close>

definition near_a :: track where
  "near_a = \<lparr>cx = Fin 27, cy = Fin 34, lastSeen = 0, exprEMA = start_vec\<rparr>"

definition near_b :: track where
  "near_b = \<lparr>cx = Fin 33, cy = Fin 26, lastSeen = 0, exprEMA = const_vec\<rparr>"

definition two_near :: state where
  "two_near = \<lparr>tracks = [(1, near_a), (2, near_b)], nextId = 3\<rparr>"

text \<open>
  Four frames from the initial state: a face appears, is seen again 50 ms later, and after a
  pause two frames show faces elsewhere.
\<close>

definition example_frames :: "(real \<times> detection list) list" where
  "example_frames = [(0, [frame1_det]), (50, [frame2_det]), (4000, [far_det]), (4050, [frame1_det])]"

text \<open>A table with one track last matched at time 0, and one with a track matched at 1000.\<close>

definition old_track :: track where
  "old_track = \<lparr>cx = Fin 30, cy = Fin 30, lastSeen = 0, exprEMA = start_vec\<rparr>"

definition one_old :: state where
  "one_old = \<lparr>tracks = [(1, old_track)], nextId = 2\<rparr>"

text \<open>A current vector that has \<^verbatim>\<open>__proto__\<close> as a key of its own.\<close>

definition proto_vec :: expr where
  "proto_vec = [(''__proto__'', Fin (1 / 2)), (''happy'', Fin (1 / 2))]"

text \<open>
  A box whose width and height are the double nearest to the square root of 2, which lies above
  it, centred at (1, 1): the track of \<open>one_far\<close>, at the origin, is at the distance
  \<open>sqrt 2\<close> from its centre.
\<close>

definition unit_det :: detection where
  "unit_det = \<lparr>det_box = \<lparr>box_x = 2638147582215219 / 9007199254740992,
                            box_y = 2638147582215219 / 9007199254740992,
                            box_width = 6369051672525773 / 4503599627370496,
                            box_height = 6369051672525773 / 4503599627370496\<rparr>,
                expressions = start_vec, trackId = None\<rparr>"

section \<open>Facts about rounding\<close>

lemma rne_close: "\<bar>of_int (rne y) - y\<bar> \<le> 1 / 2"
  unfolding rne_def Let_def by (auto simp: abs_le_iff)

lemma rne_of_int [simp]: "rne (of_int n) = n"
  by (simp add: rne_def)

lemma rne_le: "y \<le> of_int k \<Longrightarrow> rne y \<le> k"
  unfolding rne_def Let_def by (auto simp: le_floor_iff floor_le_iff)

lemma rne_ge: "of_int k \<le> y \<Longrightarrow> k \<le> rne y"
  unfolding rne_def Let_def by (auto simp: le_floor_iff) linarith+


lemma powr_powi: "2 powr (real_of_int k) = (2::real) powi k"
  by (simp add: powr_real_of_int')

lemma powr_powi_Suc: "2 powr (real_of_int k + 1) = (2::real) powi (k + 1)"
  using powr_powi [of "k + 1"] by (simp add: add.commute)

lemma binade:
  assumes "r \<noteq> 0"
  shows "2 powi \<lfloor>log 2 \<bar>r\<bar>\<rfloor> \<le> \<bar>r\<bar> \<and> \<bar>r\<bar> < 2 powi (\<lfloor>log 2 \<bar>r\<bar>\<rfloor> + 1)"
proof -
  have "0 < \<bar>r\<bar>" using assms by simp
  then have "2 powr \<lfloor>log 2 \<bar>r\<bar>\<rfloor> \<le> \<bar>r\<bar> \<and> \<bar>r\<bar> < 2 powr (\<lfloor>log 2 \<bar>r\<bar>\<rfloor> + 1)"
    using floor_log_eq_powr_iff [of "\<bar>r\<bar>" 2 "\<lfloor>log 2 \<bar>r\<bar>\<rfloor>"] by simp
  then show ?thesis unfolding powr_powi powr_powi_Suc .
qed

lemma floor_log2_eq:
  assumes "2 powi e \<le> \<bar>r\<bar>" "\<bar>r\<bar> < 2 powi (e + 1)"
  shows "\<lfloor>log 2 \<bar>r\<bar>\<rfloor> = e"
proof -
  have "0 < (2::real) powi e" by simp
  then have p: "0 < \<bar>r\<bar>" using assms(1) by linarith
  have "2 powr e \<le> \<bar>r\<bar> \<and> \<bar>r\<bar> < 2 powr (e + 1)"
    using assms unfolding powr_powi powr_powi_Suc by simp
  then show ?thesis using floor_log_eq_powr_iff [OF p, of 2 e] by simp
qed

lemma rne_floor: "\<lfloor>x\<rfloor> \<le> rne x \<and> rne x \<le> \<lfloor>x\<rfloor> + 1"
  by (simp add: rne_def Let_def)

lemma rne_mono: "x \<le> y \<Longrightarrow> rne x \<le> rne y"
proof -
  assume xy: "x \<le> y"
  then have f: "\<lfloor>x\<rfloor> \<le> \<lfloor>y\<rfloor>" by (rule floor_mono)
  show ?thesis
  proof (cases "\<lfloor>x\<rfloor> = \<lfloor>y\<rfloor>")
    case True
    then show ?thesis using xy unfolding rne_def Let_def by auto
  next
    case False
    then have "\<lfloor>x\<rfloor> + 1 \<le> \<lfloor>y\<rfloor>" using f by linarith
    then show ?thesis using rne_floor [of x] rne_floor [of y] by linarith
  qed
qed


lemma quantum_expo: "quantum r = 2 powi (expo r - 52)"
  by (simp add: quantum_def)

lemma quantum_pos: "0 < quantum r"
  by (simp add: quantum_def)

lemma expo_eq:
  assumes "2 powi e \<le> \<bar>r\<bar>" "\<bar>r\<bar> < 2 powi (e + 1)"
  shows "expo r = max e (- 1022)"
  using floor_log2_eq [OF assms] by (simp add: expo_def)

lemma expo_bounds:
  assumes "r \<noteq> 0"
  shows "\<bar>r\<bar> < 2 powi (expo r + 1)" and "- 1022 < expo r \<Longrightarrow> 2 powi (expo r) \<le> \<bar>r\<bar>"
proof -
  note b = binade [OF assms]
  have "\<lfloor>log 2 \<bar>r\<bar>\<rfloor> + 1 \<le> expo r + 1" by (simp add: expo_def)
  then have "(2::real) powi (\<lfloor>log 2 \<bar>r\<bar>\<rfloor> + 1) \<le> 2 powi (expo r + 1)"
    by (intro power_int_increasing) simp_all
  then show "\<bar>r\<bar> < 2 powi (expo r + 1)" using b by linarith
  show "2 powi (expo r) \<le> \<bar>r\<bar>" if "- 1022 < expo r"
  proof -
    have "expo r = \<lfloor>log 2 \<bar>r\<bar>\<rfloor>" using that by (simp add: expo_def max_def split: if_splits)
    then show ?thesis using b by simp
  qed
qed

lemma round64_nearest64:
  "round64 r = (if r = 0 then Fin 0 else
     if 2 ^ 1024 \<le> nearest64 r then PInf else if nearest64 r \<le> - (2 ^ 1024) then NInf
     else Fin (nearest64 r))"
  by (simp add: round64_def)

lemma nearest64_err: "\<bar>nearest64 r - r\<bar> \<le> quantum r / 2"
proof -
  let ?q = "quantum r"
  have "\<bar>of_int (rne (r / ?q)) - r / ?q\<bar> * ?q \<le> 1 / 2 * ?q"
    using rne_close [of "r / ?q"] quantum_pos [of r] by (intro mult_right_mono) simp_all
  moreover have "\<bar>of_int (rne (r / ?q)) - r / ?q\<bar> * ?q = \<bar>nearest64 r - r\<bar>"
  proof -
    have "\<bar>of_int (rne (r / ?q)) - r / ?q\<bar> * ?q = \<bar>(of_int (rne (r / ?q)) - r / ?q) * ?q\<bar>"
      using quantum_pos [of r] by (simp add: abs_mult)
    also have "(of_int (rne (r / ?q)) - r / ?q) * ?q = nearest64 r - r"
      using quantum_pos [of r] by (simp add: nearest64_def field_simps)
    finally show ?thesis .
  qed
  ultimately show ?thesis by simp
qed

lemma nearest64_exact:
  assumes "r = of_int n * quantum r"
  shows "nearest64 r = r"
proof -
  have "r / quantum r = of_int n" using assms quantum_pos [of r] by (simp add: field_simps)
  then show ?thesis using assms by (simp add: nearest64_def)
qed

lemma round64_0 [simp]: "round64 0 = Fin 0"
  by (simp add: round64_def)

lemma nearest64_eval:
  assumes "2 powi e \<le> \<bar>r\<bar>" "\<bar>r\<bar> < 2 powi (e + 1)" "- 1022 \<le> e"
  shows "nearest64 r = of_int (rne (r / 2 powi (e - 52))) * 2 powi (e - 52)"
proof -
  have "expo r = e" using expo_eq [OF assms(1,2)] assms(3) by simp
  then show ?thesis by (simp add: nearest64_def quantum_expo)
qed

lemma rne_quantum_bound:
  assumes "r \<noteq> 0"
  shows "\<bar>rne (r / quantum r)\<bar> \<le> 2 ^ 53"
proof -
  let ?q = "quantum r"
  have q: "2 powi (expo r + 1) = 2 ^ 53 * ?q"
    by (simp add: quantum_expo power_int_diff power_int_add)
  have "\<bar>r\<bar> / ?q < 2 ^ 53"
    using expo_bounds(1) [OF assms] quantum_pos [of r] unfolding q by (simp add: field_simps)
  then have b: "r / ?q \<le> of_int (2 ^ 53)" "of_int (- (2 ^ 53)) \<le> r / ?q"
    using quantum_pos [of r] by (simp_all add: abs_le_iff field_simps abs_less_iff)
  have "rne (r / ?q) \<le> 2 ^ 53" "- (2 ^ 53) \<le> rne (r / ?q)"
    using b(1) apply (rule rne_le) using b(2) by (rule rne_ge)
  then show ?thesis by (simp add: abs_le_iff)
qed

lemma nearest64_mag:
  assumes "r \<noteq> 0"
  shows "\<bar>nearest64 r\<bar> \<le> 2 powi (expo r + 1)"
proof -
  let ?q = "quantum r"
  have q: "2 powi (expo r + 1) = 2 ^ 53 * ?q"
    by (simp add: quantum_expo power_int_diff power_int_add)
  have "real_of_int \<bar>rne (r / ?q)\<bar> \<le> real_of_int (2 ^ 53)"
    using rne_quantum_bound [OF assms] by (simp only: of_int_le_iff)
  then have "\<bar>real_of_int (rne (r / ?q))\<bar> \<le> 2 ^ 53" by simp
  then have "\<bar>real_of_int (rne (r / ?q))\<bar> * ?q \<le> 2 ^ 53 * ?q"
    using quantum_pos [of r] by (intro mult_right_mono) simp_all
  then show ?thesis unfolding q nearest64_def using quantum_pos [of r] by (simp add: abs_mult)
qed

lemma round64_eval:
  assumes "2 powi e \<le> \<bar>r\<bar>" "\<bar>r\<bar> < 2 powi (e + 1)" "- 1022 \<le> e" "e \<le> 1022"
  shows "round64 r = Fin (of_int (rne (r / 2 powi (e - 52))) * 2 powi (e - 52))"
proof -
  have "0 < (2::real) powi e" by simp
  then have "0 < \<bar>r\<bar>" using assms(1) by linarith
  then have nz: "r \<noteq> 0" by auto
  have ex: "expo r = e" using expo_eq [OF assms(1,2)] assms(3) by simp
  have "\<bar>nearest64 r\<bar> \<le> 2 powi (e + 1)" using nearest64_mag [OF nz] ex by simp
  also have "\<dots> \<le> 2 powi 1023" using assms(4) by (intro power_int_increasing) simp_all
  also have "\<dots> < (2::real) ^ 1024" by simp
  finally have "\<bar>nearest64 r\<bar> < 2 ^ 1024" .
  then show ?thesis
    using nz nearest64_eval [OF assms(1-3)] by (simp add: round64_nearest64 abs_less_iff)
qed


lemma floor_log2_less:
  assumes "r \<noteq> 0" "\<bar>r\<bar> < 2 powi j"
  shows "\<lfloor>log 2 \<bar>r\<bar>\<rfloor> < j"
proof (rule ccontr)
  assume "\<not> \<lfloor>log 2 \<bar>r\<bar>\<rfloor> < j"
  then have "(2::real) powi j \<le> 2 powi \<lfloor>log 2 \<bar>r\<bar>\<rfloor>"
    by (intro power_int_increasing) simp_all
  then show False using binade [OF assms(1)] assms(2) by linarith
qed

lemma expo_less:
  assumes "r \<noteq> 0" "\<bar>r\<bar> < 2 powi j" "- 1022 < j"
  shows "expo r < j"
  using floor_log2_less [OF assms(1,2)] assms(3) by (simp add: expo_def)

lemma expo_ge: "- 1022 \<le> expo r"
  by (simp add: expo_def)

lemma rep_exact_strict:
  assumes "x = of_int n * 2 powi k" "- 1074 \<le> k" "\<bar>n\<bar> < 2 ^ 53" "\<bar>x\<bar> < 2 ^ 1024"
  shows "round64 x = Fin x"
proof (cases "x = 0")
  case True
  then show ?thesis by simp
next
  case False
  have "real_of_int \<bar>n\<bar> < real_of_int (2 ^ 53)" using assms(3) by (simp only: of_int_less_iff)
  then have "\<bar>real_of_int n\<bar> < 2 ^ 53" by simp
  then have "\<bar>real_of_int n\<bar> * 2 powi k < 2 ^ 53 * 2 powi k"
    by (intro mult_strict_right_mono) simp_all
  then have "\<bar>x\<bar> < 2 powi (k + 53)"
    by (simp add: assms(1) abs_mult power_int_add mult.commute)
  then have "expo x < k + 53" using False assms(2) by (intro expo_less) simp_all
  then have "k = expo x - 52 + int (nat (k + 52 - expo x))" by simp
  then obtain j where j: "k = expo x - 52 + int j" ..
  have "2 powi k = 2 ^ j * quantum x"
    unfolding quantum_expo j by (simp add: power_int_add mult.commute)
  then have "x = of_int (n * 2 ^ j) * quantum x" using assms(1) by simp
  then have "nearest64 x = x" by (rule nearest64_exact)
  then show ?thesis using False assms(4) by (simp add: round64_nearest64 abs_less_iff)
qed

lemma rep_exact:
  assumes "x = of_int n * 2 powi k" "- 1074 \<le> k" "\<bar>n\<bar> \<le> 2 ^ 53" "\<bar>x\<bar> < 2 ^ 1024"
  shows "round64 x = Fin x"
proof (cases "\<bar>n\<bar> < 2 ^ 53")
  case True
  then show ?thesis using assms by (intro rep_exact_strict [of x n k])
next
  case False
  then have "\<bar>n\<bar> = 2 ^ 53" using assms(3) by simp
  then consider "n = 2 ^ 53" | "n = - (2 ^ 53)" by (auto simp: abs_if split: if_splits)
  then obtain m :: int where m: "n = 2 * m" "\<bar>m\<bar> < 2 ^ 53"
    by cases (auto intro: that [of "2 ^ 52"] that [of "- (2 ^ 52)"])
  have "x = of_int m * 2 powi (k + 1)"
    unfolding assms(1) m(1) by (simp add: power_int_add)
  then show ?thesis using m(2) assms(2,4) by (intro rep_exact_strict [of x m "k + 1"]) simp_all
qed

lemma round64_of_int: "\<bar>m\<bar> \<le> 2 ^ 53 \<Longrightarrow> round64 (of_int m) = Fin (of_int m)"
proof -
  assume m: "\<bar>m\<bar> \<le> 2 ^ 53"
  then have "real_of_int \<bar>m\<bar> \<le> real_of_int (2 ^ 53)" by (simp only: of_int_le_iff)
  then have "\<bar>real_of_int m\<bar> < 2 ^ 1024" by simp
  then show ?thesis using m by (intro rep_exact [of _ m 0]) simp_all
qed

lemma round64_numeral [simp]:
  "numeral w \<le> (2::int) ^ 53 \<Longrightarrow> round64 (numeral w) = Fin (numeral w)"
  using round64_of_int [of "numeral w"] by simp

lemma round64_neg_numeral [simp]:
  "numeral w \<le> (2::int) ^ 53 \<Longrightarrow> round64 (- numeral w) = Fin (- numeral w)"
  using round64_of_int [of "- numeral w"] by simp

lemma round64_1 [simp]: "round64 1 = Fin 1"
  using round64_of_int [of 1] by simp

lemma round64_idem:
  assumes "round64 r = Fin x"
  shows "round64 x = Fin x"
proof (cases "r = 0")
  case True
  then show ?thesis using assms by simp
next
  case False
  then have x: "x = nearest64 r" "\<bar>nearest64 r\<bar> < 2 ^ 1024"
    using assms by (auto simp: round64_nearest64 split: if_splits)
  have "x = of_int (rne (r / quantum r)) * 2 powi (expo r - 52)"
    by (simp add: x(1) nearest64_def quantum_expo)
  moreover have "- 1074 \<le> expo r - 52" using expo_ge [of r] by simp
  ultimately show ?thesis
    using rne_quantum_bound [OF False] x
    by (intro rep_exact [of x "rne (r / quantum r)" "expo r - 52"]) simp_all
qed

lemma round64_abs_err:
  assumes "\<bar>r\<bar> < 2 powi j" "- 1021 \<le> j" "j \<le> 1023"
  shows "\<exists>x. round64 r = Fin x \<and> \<bar>x - r\<bar> \<le> 2 powi (j - 54)"
proof (cases "r = 0")
  case True
  then show ?thesis by simp
next
  case False
  have e: "expo r < j" using False assms(1,2) by (intro expo_less) simp_all
  have "quantum r \<le> 2 powi (j - 53)"
    unfolding quantum_expo using e by (intro power_int_increasing) simp_all
  then have "quantum r / 2 \<le> 2 powi (j - 54)"
    by (simp add: power_int_diff)
  then have err: "\<bar>nearest64 r - r\<bar> \<le> 2 powi (j - 54)"
    using nearest64_err [of r] by linarith
  have "\<bar>nearest64 r\<bar> \<le> 2 powi (expo r + 1)" using False by (rule nearest64_mag)
  also have "\<dots> \<le> 2 powi 1023" using e assms(3) by (intro power_int_increasing) simp_all
  also have "\<dots> < (2::real) ^ 1024" by simp
  finally have "\<bar>nearest64 r\<bar> < 2 ^ 1024" .
  then have "round64 r = Fin (nearest64 r)"
    using False by (simp add: round64_nearest64 abs_less_iff)
  then show ?thesis using err by blast
qed

lemma round64_rel_err:
  assumes "2 powi (- 1022) \<le> \<bar>r\<bar>" "\<bar>r\<bar> < 2 ^ 1023"
  shows "\<exists>x. round64 r = Fin x \<and> \<bar>x - r\<bar> \<le> \<bar>r\<bar> / 2 ^ 53"
proof -
  have "0 < (2::real) powi (- 1022)" by simp
  then have "0 < \<bar>r\<bar>" using assms(1) by linarith
  then have nz: "r \<noteq> 0" by auto
  have le: "2 powi (expo r) \<le> \<bar>r\<bar>"
  proof (cases "- 1022 < expo r")
    case True
    then show ?thesis using expo_bounds(2) [OF nz] by simp
  next
    case False
    then have "expo r = - 1022" using expo_ge [of r] by linarith
    then show ?thesis using assms(1) by simp
  qed
  have "quantum r / 2 = 2 powi (expo r) / 2 ^ 53"
    by (simp add: quantum_expo power_int_diff)
  also have "\<dots> \<le> \<bar>r\<bar> / 2 ^ 53" using le by (simp add: divide_right_mono)
  finally have err: "\<bar>nearest64 r - r\<bar> \<le> \<bar>r\<bar> / 2 ^ 53"
    using nearest64_err [of r] by linarith
  have "\<bar>r\<bar> / 2 ^ 53 \<le> \<bar>r\<bar>" by (simp add: field_simps)
  then have "\<bar>nearest64 r\<bar> \<le> 2 * \<bar>r\<bar>" using err by linarith
  also have "\<dots> < 2 * 2 ^ 1023" using assms(2) by simp
  finally have "\<bar>nearest64 r\<bar> < 2 ^ 1024" by simp
  then have "round64 r = Fin (nearest64 r)"
    using nz by (simp add: round64_nearest64 abs_less_iff)
  then show ?thesis using err by blast
qed

lemma expo_mono:
  assumes "0 < r" "r \<le> b"
  shows "expo r \<le> expo b"
proof -
  have "log 2 \<bar>r\<bar> \<le> log 2 \<bar>b\<bar>" using assms by simp
  then have "\<lfloor>log 2 \<bar>r\<bar>\<rfloor> \<le> \<lfloor>log 2 \<bar>b\<bar>\<rfloor>" by (rule floor_mono)
  then show ?thesis by (simp add: expo_def)
qed

lemma nearest64_nonneg: "0 \<le> r \<Longrightarrow> 0 \<le> nearest64 r"
proof -
  assume "0 \<le> r"
  then have "of_int 0 \<le> r / quantum r" using quantum_pos [of r] by simp
  then have "0 \<le> rne (r / quantum r)" by (rule rne_ge)
  then show ?thesis using quantum_pos [of r] by (simp add: nearest64_def)
qed

lemma round64_le_rep:
  assumes "0 \<le> r" "r \<le> b" "round64 b = Fin b"
  shows "\<exists>x. round64 r = Fin x \<and> 0 \<le> x \<and> x \<le> b"
proof (cases "r = 0")
  case True
  then show ?thesis using assms by simp
next
  case False
  then have r: "0 < r" using assms(1) by simp
  then have b: "0 < b" "b \<noteq> 0" using assms(2) by auto
  have nb: "nearest64 b = b" "\<bar>nearest64 b\<bar> < 2 ^ 1024"
    using assms(3) b by (auto simp: round64_nearest64 split: if_splits)
  have "nearest64 r \<le> b"
  proof (cases "expo r = expo b")
    case True
    then have q: "quantum r = quantum b" by (simp add: quantum_expo)
    have "r / quantum b \<le> b / quantum b"
      using assms(2) quantum_pos [of b] by (simp add: divide_right_mono)
    then have "rne (r / quantum b) \<le> rne (b / quantum b)" by (rule rne_mono)
    then have "real_of_int (rne (r / quantum b)) * quantum b
                 \<le> real_of_int (rne (b / quantum b)) * quantum b"
      using quantum_pos [of b] by (intro mult_right_mono) simp_all
    then show ?thesis using nb(1) by (simp add: nearest64_def q)
  next
    case ne: False
    then have lt: "expo r < expo b" using expo_mono [OF r assms(2)] by simp
    have "nearest64 r \<le> \<bar>nearest64 r\<bar>" by simp
    also have "\<dots> \<le> 2 powi (expo r + 1)" using False by (rule nearest64_mag)
    also have "\<dots> \<le> 2 powi (expo b)" using lt by (intro power_int_increasing) simp_all
    also have "\<dots> \<le> \<bar>b\<bar>" using lt expo_ge [of r] by (intro expo_bounds(2) b(2)) simp
    finally show ?thesis using b(1) by simp
  qed
  moreover have "0 \<le> nearest64 r" using assms(1) by (rule nearest64_nonneg)
  moreover have "b < 2 ^ 1024" using nb b by simp
  ultimately show ?thesis using False by (simp add: round64_nearest64)
qed

section \<open>Facts about the order of numbers\<close>

lemma lt_irrefl [simp]: "\<not> lt x x"
  by (cases x) simp_all

lemma lt_trans: "lt x y \<Longrightarrow> lt y z \<Longrightarrow> lt x z"
  by (cases x; cases y; cases z) simp_all

lemma lt_asym: "lt x y \<Longrightarrow> \<not> lt y x"
  by (cases x; cases y) simp_all

lemma lt_not_NaN: "lt x y \<Longrightarrow> x \<noteq> NaN \<and> y \<noteq> NaN"
  by (cases x; cases y) simp_all

lemma lt_total: "x \<noteq> NaN \<Longrightarrow> y \<noteq> NaN \<Longrightarrow> lt x y \<or> x = y \<or> lt y x"
  by (cases x; cases y) auto

lemma not_lt_trans: "lt x z \<Longrightarrow> \<not> lt y z \<Longrightarrow> y \<noteq> NaN \<Longrightarrow> lt x y"
  by (cases x; cases y; cases z) simp_all

lemma lt_Fin_mono: "lt (Fin a) x \<Longrightarrow> b \<le> a \<Longrightarrow> lt (Fin b) x"
  by (cases x) simp_all

section \<open>Facts about the scan\<close>

lemma active_Cons:
  "active now ((i, t) # ts) = (if stale now t then active now ts else (i, t) # active now ts)"
  by (simp add: active_def stale_def)

lemma active_subset: "set (active now ts) \<subseteq> set ts"
  by (auto simp: active_def)

lemma active_not_stale: "(i, t) \<in> set (active now ts) \<Longrightarrow> \<not> stale now t"
  by (auto simp: active_def stale_def)

lemma candidates_Cons:
  "candidates now c bd ((i, t) # ts) =
     (if \<not> stale now t \<and> lt (dist_to c t) bd then (i, t) # candidates now c bd ts
      else candidates now c bd ts)"
  by (simp add: candidates_def active_Cons)

lemma candidates_iff:
  "(i, t) \<in> set (candidates now c bd ts) \<longleftrightarrow> (i, t) \<in> set (active now ts) \<and> lt (dist_to c t) bd"
  by (auto simp: candidates_def)

lemma candidates_below:
  assumes "lt d bd"
  shows "candidates now c d ts = filter (\<lambda>(i, t). lt (dist_to c t) d) (candidates now c bd ts)"
proof -
  have "lt (dist_to c t) d \<and> lt (dist_to c t) bd \<longleftrightarrow> lt (dist_to c t) d" for t
    using assms lt_trans by blast
  then show ?thesis by (simp add: candidates_def split_def conj_commute cong: conj_cong)
qed

lemma find_filter:
  "(\<And>x. x \<in> set xs \<Longrightarrow> P x \<longleftrightarrow> Q x \<and> R x) \<Longrightarrow> find P xs = find R (filter Q xs)"
  by (induction xs) auto

lemma find_cong_set: "(\<And>x. x \<in> set xs \<Longrightarrow> P x \<longleftrightarrow> Q x) \<Longrightarrow> find P xs = find Q xs"
  by (induction xs) auto

lemma first_nearest_Cons_here:
  assumes "\<forall>(j, u) \<in> set cs. \<not> lt (dist_to c u) (dist_to c t)"
  shows "first_nearest c ((i, t) # cs) = Some (i, t)"
  using assms by (simp add: first_nearest_def)

lemma first_nearest_Cons_later:
  assumes below: "\<forall>(j, u) \<in> set cs. dist_to c u \<noteq> NaN" "dist_to c t \<noteq> NaN"
    and some: "\<exists>(j, u) \<in> set cs. lt (dist_to c u) (dist_to c t)"
  shows "first_nearest c ((i, t) # cs)
           = first_nearest c (filter (\<lambda>(j, u). lt (dist_to c u) (dist_to c t)) cs)"
proof -
  let ?d = "dist_to c t"
  let ?cs' = "filter (\<lambda>(j, u). lt (dist_to c u) ?d) cs"
  let ?P = "\<lambda>(j, u). \<forall>(k, w) \<in> set ((i, t) # cs). \<not> lt (dist_to c w) (dist_to c u)"
  let ?R = "\<lambda>(j, u). \<forall>(k, w) \<in> set ?cs'. \<not> lt (dist_to c w) (dist_to c u)"
  from some obtain j0 u0 where w0: "(j0, u0) \<in> set cs" "lt (dist_to c u0) ?d" by auto
  have "\<not> ?P (i, t)" using w0 by auto
  then have "find ?P ((i, t) # cs) = find ?P cs"
    by (simp only: find.simps if_False)
  then have "first_nearest c ((i, t) # cs) = find ?P cs"
    by (simp only: first_nearest_def)
  also have "\<dots> = find ?R ?cs'"
  proof (rule find_filter)
    fix x assume x: "x \<in> set cs"
    obtain j u where xu: "x = (j, u)" by (cases x)
    have un: "dist_to c u \<noteq> NaN" using below(1) x xu by auto
    show "?P x \<longleftrightarrow> (case x of (j, u) \<Rightarrow> lt (dist_to c u) ?d) \<and> ?R x"
    proof
      assume p: "?P x"
      then have "\<not> lt (dist_to c u0) (dist_to c u)" using w0(1) xu by auto
      then have "lt (dist_to c u) ?d"
        using w0(2) un lt_total [OF un below(2)] lt_trans by (metis lt_asym)
      moreover have "?R x" using p xu by auto
      ultimately show "(case x of (j, u) \<Rightarrow> lt (dist_to c u) ?d) \<and> ?R x" using xu by simp
    next
      assume q: "(case x of (j, u) \<Rightarrow> lt (dist_to c u) ?d) \<and> ?R x"
      then have l: "lt (dist_to c u) ?d" using xu by simp
      have "\<not> lt (dist_to c w) (dist_to c u)" if "(k, w) \<in> set ((i, t) # cs)" for k w
      proof (cases "(k, w) = (i, t)")
        case True
        then show ?thesis using l lt_asym by auto
      next
        case False
        then have m: "(k, w) \<in> set cs" using that by auto
        show ?thesis
        proof
          assume lw: "lt (dist_to c w) (dist_to c u)"
          then have "lt (dist_to c w) ?d" using l lt_trans by blast
          then have "(k, w) \<in> set ?cs'" using m by simp
          then show False using q xu lw by auto
        qed
      qed
      then show "?P x" using xu by auto
    qed
  qed
  finally show ?thesis by (simp add: first_nearest_def)
qed

lemma minimal_exists:
  assumes "xs \<noteq> []" "\<forall>x \<in> set xs. f x \<noteq> NaN"
  shows "\<exists>x \<in> set xs. \<forall>y \<in> set xs. \<not> lt (f y) (f x)"
  using assms
proof (induction xs rule: list_nonempty_induct)
  case (single x)
  then show ?case by simp
next
  case (cons x xs)
  then obtain m where m: "m \<in> set xs" "\<forall>y \<in> set xs. \<not> lt (f y) (f m)" by auto
  show ?case
  proof (cases "lt (f x) (f m)")
    case True
    have "\<not> lt (f y) (f x)" if "y \<in> set xs" for y
      using m(2) that True lt_trans by blast
    then show ?thesis by auto
  next
    case False
    then show ?thesis using m by auto
  qed
qed

lemma first_nearest_Some:
  assumes "cs \<noteq> []" "\<forall>(j, u) \<in> set cs. dist_to c u \<noteq> NaN"
  shows "first_nearest c cs \<noteq> None"
proof -
  have "\<forall>x \<in> set cs. dist_to c (snd x) \<noteq> NaN" using assms(2) by auto
  from minimal_exists [OF assms(1) this]
  obtain x where "x \<in> set cs" "\<forall>y \<in> set cs. \<not> lt (dist_to c (snd y)) (dist_to c (snd x))"
    by blast
  then have "\<exists>x \<in> set cs. case x of (i, t) \<Rightarrow>
      \<forall>(j, u) \<in> set cs. \<not> lt (dist_to c u) (dist_to c t)"
    by (intro bexI [of _ x]) (auto simp: split_def)
  then show ?thesis unfolding first_nearest_def find_None_iff by blast
qed

lemma nearest_scan:
  "nearest now c ts (bid, bd) =
     (case first_nearest c (candidates now c bd ts) of
        None \<Rightarrow> (bid, bd)
      | Some (i, t) \<Rightarrow> (Some i, dist_to c t))"
proof (induction ts arbitrary: bid bd)
  case Nil
  show ?case by (simp add: candidates_def active_def first_nearest_def)
next
  case (Cons p ts)
  obtain i t where p: "p = (i, t)" by (cases p)
  let ?d = "dist_to c t"
  show ?case
  proof (cases "\<not> stale now t \<and> lt ?d bd")
    case False
    then have "nearest now c (p # ts) (bid, bd) = nearest now c ts (bid, bd)"
      using p by auto
    moreover have "candidates now c bd (p # ts) = candidates now c bd ts"
      using False p by (simp add: candidates_Cons)
    ultimately show ?thesis using Cons.IH [of bid bd] by simp
  next
    case True
    let ?cs = "candidates now c bd ts"
    let ?cs' = "candidates now c ?d ts"
    have n: "nearest now c (p # ts) (bid, bd) = nearest now c ts (Some i, ?d)"
      using True p by simp
    have cc: "candidates now c bd (p # ts) = (i, t) # ?cs"
      using True p by (simp add: candidates_Cons)
    have sub: "?cs' = filter (\<lambda>(j, u). lt (dist_to c u) ?d) ?cs"
      using True by (intro candidates_below) simp
    have nn: "\<forall>(j, u) \<in> set ?cs. dist_to c u \<noteq> NaN" "?d \<noteq> NaN"
      using True lt_not_NaN by (auto simp: candidates_iff)
    show ?thesis
    proof (cases "?cs' = []")
      case e: True
      then have "\<forall>(j, u) \<in> set ?cs. \<not> lt (dist_to c u) ?d"
        unfolding sub by (auto simp: filter_empty_conv)
      then have "first_nearest c ((i, t) # ?cs) = Some (i, t)"
        by (rule first_nearest_Cons_here)
      moreover have "nearest now c ts (Some i, ?d) = (Some i, ?d)"
        using Cons.IH [of "Some i" ?d] e by (simp add: first_nearest_def)
      ultimately show ?thesis using n cc by simp
    next
      case ne: False
      then have "\<exists>(j, u) \<in> set ?cs. lt (dist_to c u) ?d"
        unfolding sub by (auto simp: filter_empty_conv)
      then have "first_nearest c ((i, t) # ?cs) = first_nearest c ?cs'"
        unfolding sub using nn by (intro first_nearest_Cons_later)
      moreover have "first_nearest c ?cs' \<noteq> None"
        using ne lt_not_NaN by (intro first_nearest_Some) (auto simp: candidates_iff)
      ultimately show ?thesis using n cc Cons.IH [of "Some i" ?d]
        by (auto split: option.splits)
    qed
  qed
qed

lemma find_SomeD: "find P xs = Some x \<Longrightarrow> x \<in> set xs \<and> P x"
  by (induction xs) (simp_all split: if_splits)

lemma first_nearest_SomeD:
  assumes "first_nearest c cs = Some (i, t)"
  shows "(i, t) \<in> set cs" and "\<forall>(j, u) \<in> set cs. \<not> lt (dist_to c u) (dist_to c t)"
  using find_SomeD [OF assms [unfolded first_nearest_def]] by simp_all

lemma first_nearest_candidates_None:
  "first_nearest c (candidates now c bd ts) = None \<longleftrightarrow> candidates now c bd ts = []"
proof
  have nn: "\<forall>(j, u) \<in> set (candidates now c bd ts). dist_to c u \<noteq> NaN"
  proof (clarify)
    fix j u assume "(j, u) \<in> set (candidates now c bd ts)" and n: "dist_to c u = NaN"
    then have "lt (dist_to c u) bd" by (simp add: candidates_iff)
    then show False using lt_not_NaN n by blast
  qed
  assume "first_nearest c (candidates now c bd ts) = None"
  then show "candidates now c bd ts = []"
    using first_nearest_Some [OF _ nn] by blast
next
  assume "candidates now c bd ts = []"
  then show "first_nearest c (candidates now c bd ts) = None"
    by (simp add: first_nearest_def)
qed

lemma find_first_sorted:
  fixes xs :: "(nat \<times> 'b) list"
  shows "sorted_wrt (<) (map fst xs) \<Longrightarrow> find P xs = Some x \<Longrightarrow> y \<in> set xs \<Longrightarrow> P y
         \<Longrightarrow> fst x \<le> fst y"
  by (induction xs) (auto split: if_splits)

lemma sorted_candidates:
  "sorted_wrt (<) (map fst ts) \<Longrightarrow> sorted_wrt (<) (map fst (candidates now c bd ts))"
  by (simp add: candidates_def active_def sorted_wrt_map sorted_wrt_filter)

lemma nearest_active_everywhere:
  assumes "first_nearest c (candidates now c bd ts) = Some (i, t)"
  shows "(i, t) \<in> set (active now ts)" and "lt (dist_to c t) bd"
    and "\<forall>(j, u) \<in> set (active now ts). \<not> lt (dist_to c u) (dist_to c t)"
proof -
  note s = first_nearest_SomeD [OF assms]
  show a: "(i, t) \<in> set (active now ts)" and l: "lt (dist_to c t) bd"
    using s(1) by (simp_all add: candidates_iff)
  show "\<forall>(j, u) \<in> set (active now ts). \<not> lt (dist_to c u) (dist_to c t)"
  proof (clarify)
    fix j u assume u: "(j, u) \<in> set (active now ts)" and lu: "lt (dist_to c u) (dist_to c t)"
    then have "lt (dist_to c u) bd" using l lt_trans by blast
    then have "(j, u) \<in> set (candidates now c bd ts)" using u by (simp add: candidates_iff)
    then show False using s(2) lu by auto
  qed
qed

lemma nearest_first_of_ties:
  assumes "sorted_wrt (<) (map fst ts)" "first_nearest c (candidates now c bd ts) = Some (i, t)"
    "(j, u) \<in> set (active now ts)" "dist_to c u = dist_to c t"
  shows "i \<le> j"
proof -
  let ?cs = "candidates now c bd ts"
  note s = first_nearest_SomeD [OF assms(2)]
  have "lt (dist_to c u) bd" using s(1) assms(4) by (simp add: candidates_iff)
  then have m: "(j, u) \<in> set ?cs" using assms(3) by (simp add: candidates_iff)
  have "case (j, u) of (j, u) \<Rightarrow> \<forall>(k, w) \<in> set ?cs. \<not> lt (dist_to c w) (dist_to c u)"
    using s(2) assms(4) by simp
  with find_first_sorted [OF sorted_candidates [OF assms(1)], of _ now c bd "(i, t)" "(j, u)"]
    assms(2) m
  show ?thesis unfolding first_nearest_def by fastforce
qed

lemma matched_scan:
  "matched now st det =
     (case first_nearest (centerOf (det_box det))
             (candidates now (centerOf (det_box det)) (Fin 99999) (tracks st)) of
        None \<Rightarrow> None
      | Some (i, t) \<Rightarrow>
          if lt (dist_to (centerOf (det_box det)) t) (Fin (radius det)) then Some i else None)"
  by (simp add: matched_def nearest_scan radius_def split: option.split)

lemma matched_active:
  assumes "matched now st det = Some b"
  shows "\<exists>t. (b, t) \<in> set (active now (tracks st))
           \<and> lt (dist_to (centerOf (det_box det)) t) (Fin 99999)
           \<and> lt (dist_to (centerOf (det_box det)) t) (Fin (radius det))
           \<and> (\<forall>(j, u) \<in> set (active now (tracks st)).
                 \<not> lt (dist_to (centerOf (det_box det)) u) (dist_to (centerOf (det_box det)) t))"
proof -
  let ?c = "centerOf (det_box det)"
  from assms obtain t where t: "first_nearest ?c (candidates now ?c (Fin 99999) (tracks st)) = Some (b, t)"
    "lt (dist_to ?c t) (Fin (radius det))"
    by (auto simp: matched_scan split: option.splits if_splits)
  from nearest_active_everywhere [OF t(1)] t(2) show ?thesis by blast
qed

section \<open>Facts about the table and its invariant\<close>

lemma wf_distinct: "wf st \<Longrightarrow> distinct (map fst (tracks st))"
  by (simp add: wf_def strict_sorted_iff)

lemma matched_not_stale:
  assumes "wf st" "(i, t) \<in> set (tracks st)" "stale now t"
  shows "matched now st det \<noteq> Some i"
proof
  assume "matched now st det = Some i"
  then obtain u where u: "(i, u) \<in> set (active now (tracks st))"
    using matched_active by blast
  then have "(i, u) \<in> set (tracks st)" "\<not> stale now u"
    using active_subset active_not_stale by blast+
  moreover have "u = t"
    using wf_distinct [OF assms(1)] assms(2) \<open>(i, u) \<in> set (tracks st)\<close>
    by (metis eq_key_imp_eq_value)
  ultimately show False using assms(3) by simp
qed

lemma map_of_touch:
  "map_of (map (\<lambda>(i, t). if i = b then (i, f t) else (i, t)) ts) j =
     (if j = b then map_option f (map_of ts b) else map_of ts j)"
  by (induction ts) auto

lemma set_touch_other:
  "(i, t) \<in> set ts \<Longrightarrow> i \<noteq> b \<Longrightarrow> (i, t) \<in> (\<lambda>(i, t). if i = b then (i, f t) else (i, t)) ` set ts"
  by force

lemma keys_updateExisting: "map fst (tracks (fst (updateExisting now st det b))) = map fst (tracks st)"
  by (simp add: updateExisting_def Let_def split_def comp_def if_distrib cong: if_cong)

lemma nextId_updateExisting: "nextId (fst (updateExisting now st det b)) = nextId st"
  by (simp add: updateExisting_def Let_def)

lemma tracks_updateExisting:
  "tracks (fst (updateExisting now st det b)) =
     map (\<lambda>(i, t). if i = b
            then (i, t\<lparr>cx := pt_x (centerOf (det_box det)), cy := pt_y (centerOf (det_box det)),
                       lastSeen := now,
                       exprEMA := emaExpressions (Some (exprEMA t)) (expressions det)
                                    (round64 (6 / 10))\<rparr>)
            else (i, t)) (tracks st)"
  by (simp add: updateExisting_def Let_def)

lemma map_set_fresh: "k \<notin> fst ` set m \<Longrightarrow> map_set m k v = m @ [(k, v)]"
  by (induction m) auto

lemma wf_fresh: "wf st \<Longrightarrow> nextId st \<notin> fst ` set (tracks st)"
  by (auto simp: wf_def)

lemma tracks_newTrack:
  "wf st \<Longrightarrow> tracks (fst (newTrack now st det)) =
     tracks st @ [(nextId st, \<lparr>cx = pt_x (centerOf (det_box det)), cy = pt_y (centerOf (det_box det)),
                               lastSeen = now, exprEMA = expressions det\<rparr>)]"
  by (simp add: newTrack_def Let_def map_set_fresh wf_fresh)

lemma nextId_newTrack: "nextId (fst (newTrack now st det)) = Suc (nextId st)"
  by (simp add: newTrack_def Let_def)

lemma wf_updateExisting: "wf st \<Longrightarrow> wf (fst (updateExisting now st det b))"
  by (simp add: wf_def keys_updateExisting nextId_updateExisting)

lemma wf_newTrack: "wf st \<Longrightarrow> wf (fst (newTrack now st det))"
  unfolding wf_def
  by (subst (1 2) tracks_newTrack) (auto simp: wf_def nextId_newTrack sorted_wrt_append less_Suc_eq)

lemma wf_assignDet: "wf st \<Longrightarrow> wf (fst (assignDet now st det))"
  by (simp add: assignDet_def wf_updateExisting wf_newTrack split: option.split)

lemma wf_assignLoop: "wf st \<Longrightarrow> wf (fst (assignLoop now st ds))"
  by (induction ds arbitrary: st) (auto simp: split_def dest: wf_assignDet)

lemma wf_cleanup: "wf st \<Longrightarrow> wf (st\<lparr>tracks := cleanup now (tracks st)\<rparr>)"
  by (auto simp: wf_def cleanup_def sorted_wrt_map sorted_wrt_filter)

lemma wf_assignTracks: "wf st \<Longrightarrow> wf (fst (assignTracks now st ds))"
  by (simp add: assignTracks_def split_def wf_cleanup wf_assignLoop)

lemma wf_init: "wf init"
  by (simp add: wf_def init_def)

lemma nextId_assignDet: "nextId st \<le> nextId (fst (assignDet now st det))"
  by (simp add: assignDet_def nextId_updateExisting nextId_newTrack split: option.split)

lemma nextId_assignDet_cases:
  "nextId (fst (assignDet now st d)) =
     (case matched now st d of Some b \<Rightarrow> nextId st | None \<Rightarrow> Suc (nextId st))"
  by (simp add: assignDet_def nextId_updateExisting nextId_newTrack split: option.split)

lemma trackId_assignDet:
  "trackId (snd (assignDet now st det)) =
     Some (case matched now st det of Some b \<Rightarrow> b | None \<Rightarrow> nextId st)"
  by (simp add: assignDet_def updateExisting_def newTrack_def Let_def split: option.split)



lemma fst_assignLoop_Cons:
  "fst (assignLoop now st (d # ds)) = fst (assignLoop now (fst (assignDet now st d)) ds)"
  by (simp add: split_def)

lemma keys_assignDet:
  "wf st \<Longrightarrow> fst ` set (tracks (fst (assignDet now st d))) \<subseteq> insert (nextId st) (fst ` set (tracks st))"
proof (cases "matched now st d")
  case None
  assume "wf st"
  then show ?thesis using None by (simp add: assignDet_def tracks_newTrack)
next
  case (Some b)
  have "set (map fst (tracks (fst (assignDet now st d)))) = set (map fst (tracks st))"
    using Some by (simp only: assignDet_def option.case keys_updateExisting)
  then show ?thesis by auto
qed

lemma kept_assignDet:
  assumes "wf st" "(i, t) \<in> set (tracks st)" "stale now t"
  shows "(i, t) \<in> set (tracks (fst (assignDet now st det)))"
proof (cases "matched now st det")
  case None
  then show ?thesis using assms by (simp add: assignDet_def tracks_newTrack)
next
  case (Some b)
  then have "i \<noteq> b" using matched_not_stale [OF assms] by auto
  then show ?thesis using Some assms(2)
    by (simp add: assignDet_def updateExisting_def Let_def set_touch_other)
qed

lemma kept_assignLoop:
  "wf st \<Longrightarrow> (i, t) \<in> set (tracks st) \<Longrightarrow> stale now t \<Longrightarrow>
   (i, t) \<in> set (tracks (fst (assignLoop now st ds)))"
proof (induction ds arbitrary: st)
  case Nil
  then show ?case by simp
next
  case (Cons d ds)
  have "(i, t) \<in> set (tracks (fst (assignLoop now (fst (assignDet now st d)) ds)))"
    using Cons.prems by (intro Cons.IH wf_assignDet kept_assignDet)
  then show ?case by (simp add: split_def)
qed

lemma tracks_assignTracks:
  "tracks (fst (assignTracks now st ds)) = cleanup now (tracks (fst (assignLoop now st ds)))"
  by (simp add: assignTracks_def split_def)

lemma nextId_assignTracks:
  "nextId (fst (assignTracks now st ds)) = nextId (fst (assignLoop now st ds))"
  by (simp add: assignTracks_def split_def)

lemma snd_assignTracks: "snd (assignTracks now st ds) = snd (assignLoop now st ds)"
  by (simp add: assignTracks_def split_def)

lemma keys_cleanup: "fst ` set (cleanup now ts) \<subseteq> fst ` set ts"
  by (auto simp: cleanup_def)

lemma expired_not_kept:
  assumes "distinct (map fst ts)" "x \<in> set (map fst (filter (\<lambda>(i, t). lt (Fin 3000) (age now t)) ts))"
  shows "x \<notin> fst ` set (cleanup now ts)"
proof
  assume "x \<in> fst ` set (cleanup now ts)"
  then obtain u where u: "(x, u) \<in> set ts" "\<not> lt (Fin 3000) (age now u)"
    by (auto simp: cleanup_def)
  from assms(2) obtain t where t: "(x, t) \<in> set ts" "lt (Fin 3000) (age now t)" by auto
  from assms(1) u(1) t(1) have "u = t" by (metis eq_key_imp_eq_value)
  then show False using u t by simp
qed

section \<open>Facts about the events of a run\<close>

lemma trackIds_matchEvents:
  "map trackId (snd (assignLoop now st ds)) = map (\<lambda>e. Some (event_id e)) (matchEvents now st ds)"
  by (induction ds arbitrary: st) (simp_all add: split_def trackId_assignDet split: option.split)

lemma created_ids_append: "created_ids (xs @ ys) = created_ids xs @ created_ids ys"
  by (induction xs rule: created_ids.induct) simp_all

lemma created_ids_deleteEvents: "created_ids (deleteEvents now ts) = []"
  unfolding deleteEvents_def by (induction ts) auto

lemma created_matchEvents:
  "sorted_wrt (<) (created_ids (matchEvents now st ds)) \<and>
   (\<forall>i \<in> set (created_ids (matchEvents now st ds)).
      nextId st \<le> i \<and> i < nextId (fst (assignLoop now st ds))) \<and>
   nextId st \<le> nextId (fst (assignLoop now st ds))"
proof (induction ds arbitrary: st)
  case Nil
  show ?case by simp
next
  case (Cons d ds)
  let ?s = "fst (assignDet now st d)"
  note ih = Cons.IH [of ?s]
  show ?case
  proof (cases "matched now st d")
    case None
    then have n: "nextId ?s = Suc (nextId st)" by (simp add: nextId_assignDet_cases)
    have c: "created_ids (matchEvents now st (d # ds)) = nextId st # created_ids (matchEvents now ?s ds)"
      using None by simp
    show ?thesis unfolding c fst_assignLoop_Cons using ih n by auto
  next
    case (Some b)
    then have n: "nextId ?s = nextId st" by (simp add: nextId_assignDet_cases)
    have c: "created_ids (matchEvents now st (d # ds)) = created_ids (matchEvents now ?s ds)"
      using Some by simp
    show ?thesis unfolding c fst_assignLoop_Cons using ih n by auto
  qed
qed

lemma created_runEvents:
  "sorted_wrt (<) (created_ids (runEvents st fs)) \<and>
   (\<forall>i \<in> set (created_ids (runEvents st fs)). nextId st \<le> i)"
proof (induction fs arbitrary: st)
  case Nil
  show ?case by simp
next
  case (Cons f fs)
  obtain now ds where f: "f = (now, ds)" by (cases f)
  let ?s = "fst (assignTracks now st ds)"
  have c: "created_ids (runEvents st (f # fs)) =
             created_ids (matchEvents now st ds) @ created_ids (runEvents ?s fs)"
    by (simp add: f frameEvents_def created_ids_append created_ids_deleteEvents)
  have n: "nextId ?s = nextId (fst (assignLoop now st ds))" by (rule nextId_assignTracks)
  show ?case unfolding c using created_matchEvents [of now st ds] Cons.IH [of ?s] n
    by (fastforce simp: sorted_wrt_append)
qed

lemma absent_matchEvents:
  "wf st \<Longrightarrow> a < nextId st \<Longrightarrow> a \<notin> fst ` set (tracks st) \<Longrightarrow>
   a \<notin> event_id ` set (matchEvents now st ds) \<and>
   a \<notin> fst ` set (tracks (fst (assignLoop now st ds))) \<and>
   a < nextId (fst (assignLoop now st ds))"
proof (induction ds arbitrary: st)
  case Nil
  then show ?case by simp
next
  case (Cons d ds)
  let ?s = "fst (assignDet now st d)"
  have w: "wf ?s" using Cons.prems(1) by (rule wf_assignDet)
  have n: "a < nextId ?s" using Cons.prems(2) nextId_assignDet [of st now d] by linarith
  have k: "a \<notin> fst ` set (tracks ?s)"
    using keys_assignDet [OF Cons.prems(1), of now d] Cons.prems(2,3) by auto
  have e: "event_id (case matched now st d of Some b \<Rightarrow> Matched b | None \<Rightarrow> Created (nextId st)) \<noteq> a"
  proof (cases "matched now st d")
    case None
    then show ?thesis using Cons.prems(2) by simp
  next
    case (Some b)
    then obtain t where "(b, t) \<in> set (active now (tracks st))" using matched_active by blast
    then have "b \<in> fst ` set (tracks st)" using active_subset by force
    then show ?thesis using Some Cons.prems(3) by auto
  qed
  show ?case unfolding fst_assignLoop_Cons using Cons.IH [OF w n k] e by auto
qed

lemma ids_deleteEvents: "event_id ` set (deleteEvents now ts) \<subseteq> fst ` set ts"
  by (force simp: deleteEvents_def)

lemma absent_runEvents:
  "wf st \<Longrightarrow> a < nextId st \<Longrightarrow> a \<notin> fst ` set (tracks st) \<Longrightarrow>
   a \<notin> event_id ` set (runEvents st fs)"
proof (induction fs arbitrary: st)
  case Nil
  show ?case by simp
next
  case (Cons f fs)
  obtain now ds where f: "f = (now, ds)" by (cases f)
  let ?l = "fst (assignLoop now st ds)" and ?s = "fst (assignTracks now st ds)"
  note m = absent_matchEvents [OF Cons.prems, of now ds]
  have d: "a \<notin> event_id ` set (deleteEvents now (tracks ?l))"
    using m ids_deleteEvents by blast
  have "a \<notin> fst ` set (tracks ?s)"
    using m keys_cleanup unfolding tracks_assignTracks by blast
  moreover have "a < nextId ?s" using m by (simp add: nextId_assignTracks)
  moreover have "wf ?s" using Cons.prems(1) by (rule wf_assignTracks)
  ultimately have "a \<notin> event_id ` set (runEvents ?s fs)" by (intro Cons.IH)
  then show ?case using m d by (auto simp: f frameEvents_def)
qed

lemma no_reuse_matchEvents: "no_reuse (matchEvents now st ds @ es) = no_reuse es"
  by (induction ds arbitrary: st) (simp_all split: option.split)

lemma no_reuse_deleted:
  "no_reuse (map Deleted xs @ es) \<longleftrightarrow>
     distinct xs \<and> (\<forall>x \<in> set xs. x \<notin> event_id ` set es) \<and> no_reuse es"
  by (induction xs) (auto simp: image_Un image_image)

lemma deleteEvents_map:
  "deleteEvents now ts = map Deleted (map fst (filter (\<lambda>(i, t). lt (Fin 3000) (age now t)) ts))"
  by (simp add: deleteEvents_def split_def comp_def)

lemma no_reuse_runEvents: "wf st \<Longrightarrow> no_reuse (runEvents st fs)"
proof (induction fs arbitrary: st)
  case Nil
  show ?case by simp
next
  case (Cons f fs)
  obtain now ds where f: "f = (now, ds)" by (cases f)
  let ?l = "fst (assignLoop now st ds)" and ?s = "fst (assignTracks now st ds)"
  let ?x = "map fst (filter (\<lambda>(i, t). lt (Fin 3000) (age now t)) (tracks ?l))"
  have wl: "wf ?l" using Cons.prems by (rule wf_assignLoop)
  have ws: "wf ?s" using Cons.prems by (rule wf_assignTracks)
  have dl: "distinct (map fst (tracks ?l))" using wl by (rule wf_distinct)
  have "distinct ?x" using dl by (simp add: distinct_map_filter)
  moreover have "x \<notin> event_id ` set (runEvents ?s fs)" if x: "x \<in> set ?x" for x
  proof -
    have "x \<in> fst ` set (tracks ?l)" using x by auto
    then have "x < nextId ?s" using wl by (auto simp: wf_def nextId_assignTracks)
    moreover have "x \<notin> fst ` set (tracks ?s)"
      unfolding tracks_assignTracks using dl x by (rule expired_not_kept)
    ultimately show ?thesis using ws by (intro absent_runEvents)
  qed
  moreover have "no_reuse (runEvents ?s fs)" using ws by (rule Cons.IH)
  ultimately have "no_reuse (map Deleted ?x @ runEvents ?s fs)"
    unfolding no_reuse_deleted by blast
  then show ?case
    by (simp add: f frameEvents_def no_reuse_matchEvents deleteEvents_map)
qed

lemma no_reuse_tail: "no_reuse (e # es) \<Longrightarrow> no_reuse es"
  by (cases e) simp_all

lemma no_reuse_split: "no_reuse (pre @ Deleted a # post) \<Longrightarrow> a \<notin> event_id ` set post"
  by (induction pre) (auto dest: no_reuse_tail)

section \<open>Facts about the export\<close>





section \<open>Facts about computed distances\<close>

lemma hypot_exact:
  assumes "a\<^sup>2 + b\<^sup>2 = (of_int m)\<^sup>2" "0 \<le> m" "m \<le> 2 ^ 53"
  shows "hypot (Fin a) (Fin b) = Fin (of_int m)"
proof -
  have "sqrt (a\<^sup>2 + b\<^sup>2) = of_int m" using assms(1,2) by simp
  moreover have "\<bar>m\<bar> \<le> 2 ^ 53" using assms(2,3) by simp
  ultimately show ?thesis by (simp add: round64_of_int)
qed

lemma hypot_upper:
  assumes "1 \<le> a\<^sup>2 + b\<^sup>2" "a\<^sup>2 + b\<^sup>2 \<le> k\<^sup>2" "0 \<le> k" "k \<le> 2 ^ 1000" "2 * k \<le> B"
  shows "lt (hypot (Fin a) (Fin b)) (Fin B)"
proof -
  let ?r = "sqrt (a\<^sup>2 + b\<^sup>2)"
  have r1: "1 \<le> ?r" using assms(1) by simp
  have rk: "?r \<le> k" using assms(2,3) by (simp add: real_le_lsqrt)
  have "(2::real) powi (- 1022) \<le> 1" by (simp add: power_int_minus field_simps)
  then have lo: "2 powi (- 1022) \<le> \<bar>?r\<bar>" using r1 by linarith
  have "(2::real) ^ 1000 < 2 ^ 1023" by simp
  then have hi: "\<bar>?r\<bar> < 2 ^ 1023" using rk r1 assms(4) by linarith
  from round64_rel_err [OF lo hi] obtain x where
    x: "round64 ?r = Fin x" "\<bar>x - ?r\<bar> \<le> \<bar>?r\<bar> / 2 ^ 53" by blast
  have "\<bar>?r\<bar> / 2 ^ 53 < ?r" using r1 by (simp add: field_simps)
  then have "x < 2 * ?r" using x(2) by linarith
  then have "x < B" using rk assms(5) by linarith
  then show ?thesis by (simp add: x(1))
qed

lemma hypot_lower:
  assumes "k\<^sup>2 \<le> a\<^sup>2 + b\<^sup>2" "1 \<le> k" "a\<^sup>2 + b\<^sup>2 \<le> (2 ^ 1000)\<^sup>2" "B \<le> k / 2"
  shows "\<not> lt (hypot (Fin a) (Fin b)) (Fin B)"
proof -
  let ?r = "sqrt (a\<^sup>2 + b\<^sup>2)"
  have kr: "k \<le> ?r" using assms(1,2) by (simp add: real_le_rsqrt)
  then have r1: "1 \<le> ?r" using assms(2) by linarith
  have "?r \<le> 2 ^ 1000" using assms(3) by (simp add: real_le_lsqrt)
  moreover have "(2::real) ^ 1000 < 2 ^ 1023" by simp
  ultimately have hi: "\<bar>?r\<bar> < 2 ^ 1023" using r1 by linarith
  have "(2::real) powi (- 1022) \<le> 1" by (simp add: power_int_minus field_simps)
  then have lo: "2 powi (- 1022) \<le> \<bar>?r\<bar>" using r1 by linarith
  from round64_rel_err [OF lo hi] obtain x where
    x: "round64 ?r = Fin x" "\<bar>x - ?r\<bar> \<le> \<bar>?r\<bar> / 2 ^ 53" by blast
  have "\<bar>?r\<bar> / 2 ^ 53 \<le> ?r / 2" using r1 by (simp add: field_simps)
  then have "?r / 2 \<le> x" using x(2) by linarith
  then have "B \<le> x" using kr assms(4) by linarith
  then show ?thesis by (simp add: x(1))
qed

section \<open>The example inputs evaluated\<close>

lemma double_0_6: "round64 (6 / 10) = Fin (5404319552844595 / 9007199254740992)"
  using round64_eval [of "- 1" "6 / 10"] by (simp add: rne_def)

lemma double_3_5: "round64 (3 / 5) = Fin (5404319552844595 / 9007199254740992)"
  using double_0_6 by simp

lemma double_0_9: "round64 (9 / 10) = Fin (8106479329266893 / 9007199254740992)"
  using round64_eval [of "- 1" "9 / 10"] by (simp add: rne_def)

lemma double_0_1: "round64 (1 / 10) = Fin (3602879701896397 / 36028797018963968)"
  using round64_eval [of "- 4" "1 / 10"] by (simp add: rne_def)

lemma one_minus_0_6:
  "nsub (Fin 1) (Fin (5404319552844595 / 9007199254740992))
     = Fin (3602879701896397 / 9007199254740992)"
  using round64_eval [of "- 2" "1 - 5404319552844595 / 9007199254740992"]
  by (simp add: nsub_def rne_def)

lemma times_half:
  "nmul (Fin (3602879701896397 / 9007199254740992)) (Fin (1 / 2))
     = Fin (3602879701896397 / 18014398509481984)"
  using round64_eval [of "- 3" "3602879701896397 / 9007199254740992 * (1 / 2)"]
  by (simp add: rne_def)

lemma times_0_9:
  "nmul (Fin (5404319552844595 / 9007199254740992)) (Fin (8106479329266893 / 9007199254740992))
     = Fin (607985949695017 / 1125899906842624)"
  using round64_eval [of "- 1"
      "5404319552844595 / 9007199254740992 * (8106479329266893 / 9007199254740992)"]
  by (simp add: rne_def)

lemma times_0_1:
  "nmul (Fin (5404319552844595 / 9007199254740992)) (Fin (3602879701896397 / 36028797018963968))
     = Fin (1080863910568919 / 18014398509481984)"
  using round64_eval [of "- 5"
      "5404319552844595 / 9007199254740992 * (3602879701896397 / 36028797018963968)"]
  by (simp add: rne_def)

lemma sum_happy:
  "nadd (Fin (607985949695017 / 1125899906842624)) (Fin (3602879701896397 / 18014398509481984))
     = Fin (3332663724254167 / 4503599627370496)"
  using round64_eval [of "- 1"
      "607985949695017 / 1125899906842624 + 3602879701896397 / 18014398509481984"]
  by (simp add: rne_def)

lemma sum_neutral:
  "nadd (Fin (1080863910568919 / 18014398509481984)) (Fin (3602879701896397 / 18014398509481984))
     = Fin (1170935903116329 / 4503599627370496)"
  using round64_eval [of "- 2"
      "1080863910568919 / 18014398509481984 + 3602879701896397 / 18014398509481984"]
  by (simp add: rne_def)

lemmas doubles = double_0_6 double_3_5 double_0_9 double_0_1 one_minus_0_6 times_half times_0_9 times_0_1
  sum_happy sum_neutral

lemma smoothed_frame2:
  "emaExpressions (Some start_vec) const_vec (round64 (6 / 10)) =
     [(''happy'', Fin (3332663724254167 / 4503599627370496)),
      (''neutral'', Fin (1170935903116329 / 4503599627370496))]"
  by (simp add: emaExpressions_def keys_def component_def start_vec_def const_vec_def doubles
      del: nmul.simps nadd.simps)

lemma times_0_9_rest:
  "nmul (Fin (3602879701896397 / 9007199254740992)) (Fin (8106479329266893 / 9007199254740992))
     = Fin (6485183463413515 / 18014398509481984)"
  using round64_eval [of "- 2"
      "3602879701896397 / 9007199254740992 * (8106479329266893 / 9007199254740992)"]
  by (simp add: rne_def)

lemma sum_0_9:
  "nadd (Fin (607985949695017 / 1125899906842624)) (Fin (6485183463413515 / 18014398509481984))
     = Fin (4053239664633447 / 4503599627370496)"
  using round64_eval [of "- 1"
      "607985949695017 / 1125899906842624 + 6485183463413515 / 18014398509481984"]
  by (simp add: rne_def)





lemma rne_near:
  assumes "\<bar>y - of_int n\<bar> < 1 / 2"
  shows "rne y = n"
proof -
  have "\<bar>of_int (rne y) - y\<bar> \<le> 1 / 2" by (rule rne_close)
  then have "\<bar>real_of_int (rne y) - real_of_int n\<bar> < 1" using assms by linarith
  then have "\<bar>real_of_int (rne y - n)\<bar> < 1" by simp
  then have "\<bar>rne y - n\<bar> < 1" by linarith
  then show ?thesis by simp
qed

lemma sqrt_2_bounds:
  "12738103345051545 / 9007199254740992 < sqrt 2" "sqrt 2 < 12738103345051547 / 9007199254740992"
  by (rule real_less_rsqrt, simp add: power2_eq_square)
    (rule real_less_lsqrt, simp_all add: power2_eq_square)

lemma sqrt_2_below: "sqrt 2 < 6369051672525773 / 4503599627370496"
  by (rule real_less_lsqrt) (simp_all add: power2_eq_square)

lemma hypot_1_1: "hypot (Fin 1) (Fin 1) = Fin (6369051672525773 / 4503599627370496)"
proof -
  note b = sqrt_2_bounds
  have "sqrt 2 / 2 powi (0 - 52) = sqrt 2 * 4503599627370496"
    by (simp add: power_int_minus)
  moreover have "\<bar>sqrt 2 * 4503599627370496 - 6369051672525773\<bar> < 1 / 2"
    using b by linarith
  ultimately have "\<bar>sqrt 2 / 2 powi (0 - 52) - of_int 6369051672525773\<bar> < 1 / 2"
    by simp
  then have "rne (sqrt 2 / 2 powi (0 - 52)) = 6369051672525773" by (rule rne_near)
  moreover have "2 powi 0 \<le> \<bar>sqrt 2\<bar>" "\<bar>sqrt 2\<bar> < 2 powi (0 + 1)" using b by simp_all
  ultimately have "round64 (sqrt 2) = Fin (of_int 6369051672525773 * 2 powi (0 - 52))"
    using round64_eval [of 0 "sqrt 2"] by simp
  then show ?thesis by (simp add: power_int_minus)
qed

lemma center_unit_det: "centerOf (det_box unit_det) = \<lparr>pt_x = Fin 1, pt_y = Fin 1\<rparr>"
proof -
  have "round64 (6369051672525773 / 4503599627370496 / 2) = Fin (6369051672525773 / 9007199254740992)"
    using round64_eval [of "- 1" "6369051672525773 / 4503599627370496 / 2"] by (simp add: rne_def)
  then show ?thesis by (simp add: centerOf_def unit_det_def)
qed

lemma smoothed_frame2':
  "emaExpressions (Some start_vec) const_vec (round64 (3 / 5)) =
     [(''happy'', Fin (3332663724254167 / 4503599627370496)),
      (''neutral'', Fin (1170935903116329 / 4503599627370496))]"
  using smoothed_frame2 by simp

lemmas run_defs = assignTracks_def assignDet_def matched_def updateExisting_def newTrack_def
  cleanup_def centerOf_def dist_to_def stale_def age_def nsub_def Let_def

lemma hypot_2_1: "lt (hypot (Fin 2) (Fin 1)) (Fin 40)" "lt (hypot (Fin 2) (Fin 1)) (Fin 99999)"
  by (rule hypot_upper [where k = 3]; simp)+

lemma hypot_270_near: "lt (hypot (Fin 270) (Fin 270)) (Fin 99999)"
  by (rule hypot_upper [where k = 382]) simp_all

lemma hypot_270_far: "\<not> lt (hypot (Fin 270) (Fin 270)) (Fin 50)"
  by (rule hypot_lower [where k = 381]) simp_all

lemma hypot_m270_near: "lt (hypot (Fin (- 270)) (Fin (- 270))) (Fin 99999)"
  by (rule hypot_upper [where k = 382]) simp_all

lemma hypot_m270_far: "\<not> lt (hypot (Fin (- 270)) (Fin (- 270))) (Fin 40)"
  by (rule hypot_lower [where k = 381]) simp_all

lemmas hypot_270 = hypot_270_near hypot_270_far hypot_m270_near hypot_m270_far

lemma hypot_150: "hypot (Fin (- 150)) (Fin 0) = Fin 150"
  using hypot_exact [of "- 150" 0 150] by simp

lemma hypot_100000:
  "hypot (Fin 100000) (Fin 0) = Fin 100000" "hypot (Fin (- 100000)) (Fin 0) = Fin 100000"
  using hypot_exact [of 100000 0 100000] hypot_exact [of "- 100000" 0 100000] by simp_all

lemma hypot_3_4: "hypot (Fin 3) (Fin (- 4)) = Fin 5" "hypot (Fin (- 3)) (Fin 4) = Fin 5"
  using hypot_exact [of 3 "- 4" 5] hypot_exact [of "- 3" 4 5] by simp_all



lemma wf_after_frame1: "wf after_frame1"
  by (simp add: wf_def after_frame1_def)

lemma matched_frame2: "matched 50 after_frame1 frame2_det = Some 1"
  by (simp add: run_defs after_frame1_def frame2_det_def hypot_2_1 del: hypot.simps)

lemma matched_far: "matched 50 after_frame1 far_det = None"
  by (simp add: run_defs after_frame1_def far_det_def hypot_270 del: hypot.simps)

lemma run_example_frames:
  "runEvents init example_frames = [Created 1, Matched 1, Created 2, Deleted 1, Created 3]"
  by (simp add: example_frames_def frameEvents_def deleteEvents_def run_defs init_def
      frame1_det_def frame2_det_def far_det_def hypot_2_1 hypot_270 del: hypot.simps)

lemma active_two_near: "active 0 (tracks two_near) = tracks two_near"
  by (simp add: active_def age_def nsub_def two_near_def near_a_def near_b_def)

lemma dists_two_near:
  "dist_to \<lparr>pt_x = Fin 30, pt_y = Fin 30\<rparr> near_a = Fin 5"
  "dist_to \<lparr>pt_x = Fin 30, pt_y = Fin 30\<rparr> near_b = Fin 5"
  by (simp_all add: dist_to_def nsub_def near_a_def near_b_def hypot_3_4 del: hypot.simps)

section \<open>Facts about the life of a track within a frame\<close>

lemma age_now: "lastSeen u = now \<Longrightarrow> age now u = Fin 0"
  by (simp add: age_def nsub_def)

lemma fresh_not_expired: "\<not> stale now t \<Longrightarrow> \<not> lt (Fin 3000) (age now t)"
  using lt_Fin_mono [of 3000 "age now t" 1500] by (auto simp: stale_def)

lemma entry_assignDet:
  assumes "wf st" "(i, t) \<in> set (tracks st)"
  shows "\<exists>t'. (i, t') \<in> set (tracks (fst (assignDet now st d))) \<and>
              (t' = t \<or> lastSeen t' = now \<and> \<not> stale now t)"
proof (cases "matched now st d")
  case None
  then show ?thesis using assms by (auto simp: assignDet_def tracks_newTrack)
next
  case (Some b)
  show ?thesis
  proof (cases "i = b")
    case False
    then have "(i, t) \<in> set (tracks (fst (assignDet now st d)))"
      using Some assms(2) by (simp add: assignDet_def updateExisting_def Let_def set_touch_other)
    then show ?thesis by blast
  next
    case True
    from matched_active [OF Some] obtain u where "(b, u) \<in> set (active now (tracks st))"
      by blast
    then have u: "(b, u) \<in> set (tracks st)" "\<not> stale now u"
      using active_subset active_not_stale by blast+
    have "u = t" using wf_distinct [OF assms(1)] u(1) assms(2) True
      by (metis eq_key_imp_eq_value)
    then have ns: "\<not> stale now t" using u(2) by simp
    let ?t' = "t\<lparr>cx := pt_x (centerOf (det_box d)), cy := pt_y (centerOf (det_box d)),
                 lastSeen := now,
                 exprEMA := emaExpressions (Some (exprEMA t)) (expressions d) (round64 (6 / 10))\<rparr>"
    have "map_of (tracks st) b = Some t"
      using wf_distinct [OF assms(1)] assms(2) True by simp
    then have "map_of (tracks (fst (assignDet now st d))) b = Some ?t'"
      using Some by (simp add: assignDet_def tracks_updateExisting map_of_touch)
    then have "(i, ?t') \<in> set (tracks (fst (assignDet now st d)))"
      using True by (simp add: map_of_SomeD)
    moreover have "lastSeen ?t' = now" by simp
    ultimately show ?thesis using ns by blast
  qed
qed

lemma entry_assignLoop:
  "wf st \<Longrightarrow> (i, t) \<in> set (tracks st) \<Longrightarrow>
   \<exists>t'. (i, t') \<in> set (tracks (fst (assignLoop now st ds))) \<and>
        (t' = t \<or> lastSeen t' = now \<and> \<not> stale now t)"
proof (induction ds arbitrary: st t)
  case Nil
  then show ?case by auto
next
  case (Cons d ds)
  let ?s = "fst (assignDet now st d)"
  from entry_assignDet [OF Cons.prems, of now d] obtain t1 where
    t1: "(i, t1) \<in> set (tracks ?s)" "t1 = t \<or> lastSeen t1 = now \<and> \<not> stale now t" by blast
  have w: "wf ?s" using Cons.prems(1) by (rule wf_assignDet)
  from Cons.IH [OF w t1(1)] obtain t2 where
    t2: "(i, t2) \<in> set (tracks (fst (assignLoop now ?s ds)))"
      "t2 = t1 \<or> lastSeen t2 = now \<and> \<not> stale now t1" by blast
  have "t2 = t \<or> lastSeen t2 = now \<and> \<not> stale now t"
    using t1(2) t2(2) by auto
  then show ?case using t2(1) unfolding fst_assignLoop_Cons by blast
qed

lemma new_assignDet:
  assumes "wf st" "(j, u) \<in> set (tracks (fst (assignDet now st d)))" "j \<notin> fst ` set (tracks st)"
  shows "lastSeen u = now"
proof (cases "matched now st d")
  case None
  then show ?thesis using assms by (force simp: assignDet_def tracks_newTrack)
next
  case (Some b)
  have "map fst (tracks (fst (assignDet now st d))) = map fst (tracks st)"
    using Some by (simp only: assignDet_def option.case keys_updateExisting)
  then have "fst ` set (tracks (fst (assignDet now st d))) = fst ` set (tracks st)"
    by (metis set_map)
  then show ?thesis using assms(2,3) by force
qed

lemma new_assignLoop:
  "wf st \<Longrightarrow> (j, u) \<in> set (tracks (fst (assignLoop now st ds))) \<Longrightarrow>
   j \<notin> fst ` set (tracks st) \<Longrightarrow> lastSeen u = now"
proof (induction ds arbitrary: st)
  case Nil
  then show ?case by force
next
  case (Cons d ds)
  let ?s = "fst (assignDet now st d)"
  have w: "wf ?s" using Cons.prems(1) by (rule wf_assignDet)
  have m: "(j, u) \<in> set (tracks (fst (assignLoop now ?s ds)))"
    using Cons.prems(2) unfolding fst_assignLoop_Cons .
  show ?case
  proof (cases "j \<in> fst ` set (tracks ?s)")
    case False
    then show ?thesis using Cons.IH [OF w m] by blast
  next
    case True
    then obtain u1 where u1: "(j, u1) \<in> set (tracks ?s)" by auto
    then have l1: "lastSeen u1 = now" using Cons.prems(1,3) by (intro new_assignDet)
    from entry_assignLoop [OF w u1, of now ds] obtain u2 where
      u2: "(j, u2) \<in> set (tracks (fst (assignLoop now ?s ds)))"
        "u2 = u1 \<or> lastSeen u2 = now \<and> \<not> stale now u1" by blast
    have "u2 = u" using wf_distinct [OF wf_assignLoop [OF w, of now ds]] u2(1) m
      by (metis eq_key_imp_eq_value)
    then show ?thesis using u2(2) l1 by auto
  qed
qed

lemma cleanup_iff:
  "(j, u) \<in> set (cleanup now ts) \<longleftrightarrow> (j, u) \<in> set ts \<and> \<not> lt (Fin 3000) (age now u)"
  by (auto simp: cleanup_def)

lemma key_after_frame:
  assumes "wf st" "(i, t) \<in> set (tracks st)"
  shows "i \<in> fst ` set (tracks (fst (assignTracks now st ds))) \<longleftrightarrow> \<not> lt (Fin 3000) (age now t)"
proof -
  let ?l = "fst (assignLoop now st ds)"
  from entry_assignLoop [OF assms, of now ds] obtain t' where
    t': "(i, t') \<in> set (tracks ?l)" "t' = t \<or> lastSeen t' = now \<and> \<not> stale now t" by blast
  have d: "distinct (map fst (tracks ?l))" using assms(1) by (intro wf_distinct wf_assignLoop)
  have k: "\<not> lt (Fin 3000) (age now t') \<longleftrightarrow> \<not> lt (Fin 3000) (age now t)"
    using t'(2) fresh_not_expired [of now t] by (auto simp: age_now)
  have "i \<in> fst ` set (tracks (fst (assignTracks now st ds)))
          \<longleftrightarrow> (\<exists>u. (i, u) \<in> set (tracks ?l) \<and> \<not> lt (Fin 3000) (age now u))"
  proof -
    have "i \<in> fst ` set (cleanup now (tracks ?l))
            \<longleftrightarrow> (\<exists>u. (i, u) \<in> set (cleanup now (tracks ?l)))"
      by force
    then show ?thesis unfolding tracks_assignTracks cleanup_iff .
  qed
  also have "\<dots> \<longleftrightarrow> \<not> lt (Fin 3000) (age now t')"
    using d t'(1) by (metis eq_key_imp_eq_value)
  finally show ?thesis using k by simp
qed

lemma matched_iff:
  "matched now st det \<noteq> None \<longleftrightarrow>
     (\<exists>(i, t) \<in> set (active now (tracks st)).
        lt (dist_to (centerOf (det_box det)) t) (Fin 99999) \<and>
        lt (dist_to (centerOf (det_box det)) t) (Fin (radius det)))"
proof
  assume "matched now st det \<noteq> None"
  then obtain b where "matched now st det = Some b" by auto
  from matched_active [OF this] show
    "\<exists>(i, t) \<in> set (active now (tracks st)).
        lt (dist_to (centerOf (det_box det)) t) (Fin 99999) \<and>
        lt (dist_to (centerOf (det_box det)) t) (Fin (radius det))"
    by blast
next
  let ?c = "centerOf (det_box det)"
  let ?cs = "candidates now ?c (Fin 99999) (tracks st)"
  assume "\<exists>(i, t) \<in> set (active now (tracks st)).
        lt (dist_to ?c t) (Fin 99999) \<and> lt (dist_to ?c t) (Fin (radius det))"
  then obtain i t where t: "(i, t) \<in> set (active now (tracks st))"
    "lt (dist_to ?c t) (Fin 99999)" "lt (dist_to ?c t) (Fin (radius det))"
    by auto
  then have c: "(i, t) \<in> set ?cs" by (simp add: candidates_iff)
  then have "?cs \<noteq> []" by auto
  then obtain j u where u: "first_nearest ?c ?cs = Some (j, u)"
    using first_nearest_candidates_None [of ?c now "Fin 99999" "tracks st"] by force
  note s = first_nearest_SomeD [OF u]
  have "lt (dist_to ?c u) (Fin 99999)" using s(1) by (simp add: candidates_iff)
  then have n: "dist_to ?c u \<noteq> NaN" using lt_not_NaN by blast
  have "\<not> lt (dist_to ?c t) (dist_to ?c u)" using s(2) c by auto
  then have "lt (dist_to ?c u) (Fin (radius det))"
    using t(3) n not_lt_trans by blast
  then show "matched now st det \<noteq> None" by (simp add: matched_scan u)
qed

section \<open>Facts about the smoother\<close>

lemma keys_emaExpressions:
  "keys (emaExpressions (Some p) cur alpha) = filter (\<lambda>k. k \<noteq> ''__proto__'') (keys cur)"
  by (simp add: emaExpressions_def keys_def comp_def)

lemma map_of_graph: "k \<in> set ks \<Longrightarrow> map_of (map (\<lambda>k. (k, f k)) ks) k = Some (f k)"
  by (induction ks) auto

lemma component_emaExpressions:
  "k \<in> set (keys cur) \<Longrightarrow> k \<noteq> ''__proto__'' \<Longrightarrow>
   component (emaExpressions (Some p) cur alpha) k =
     nadd (nmul alpha (component p k)) (nmul (nsub (Fin 1) alpha) (component cur k))"
  by (simp add: emaExpressions_def component_def map_of_graph)

lemma component_missing: "k \<notin> set (keys p) \<Longrightarrow> component p k = NaN"
  by (simp add: component_def keys_def map_of_eq_None_iff [THEN iffD2])

lemma nmul_NaN_right [simp]: "nmul x NaN = NaN"
  by (cases x) simp_all

lemma nadd_NaN_left [simp]: "nadd NaN y = NaN"
  by (cases y) simp_all

lemma nearest_None_iff:
  "fst (nearest now c ts (None, bd)) = None \<longleftrightarrow>
     (\<forall>(j, u) \<in> set (active now ts). \<not> lt (dist_to c u) bd)"
proof -
  have "fst (nearest now c ts (None, bd)) = None
          \<longleftrightarrow> first_nearest c (candidates now c bd ts) = None"
    by (auto simp: nearest_scan split: option.splits)
  also have "\<dots> \<longleftrightarrow> candidates now c bd ts = []" by (rule first_nearest_candidates_None)
  also have "\<dots> \<longleftrightarrow> (\<forall>(j, u) \<in> set (active now ts). \<not> lt (dist_to c u) bd)"
    by (auto simp: candidates_def filter_empty_conv)
  finally show ?thesis .
qed

section \<open>Facts about the rounding error of the smoother\<close>

lemma round64_near_one:
  assumes "0 \<le> r" "r \<le> 1 + 1 / 2 ^ 54"
  shows "\<exists>x. round64 r = Fin x \<and> 0 \<le> x \<and> x \<le> 1"
proof (cases "r \<le> 1")
  case True
  then show ?thesis using assms(1) by (intro round64_le_rep) simp_all
next
  case False
  then have r: "1 < r" by simp
  have e: "r / 2 powi (0 - 52) = r * 2 ^ 52" by (simp add: power_int_minus)
  have "r * 2 ^ 52 \<le> (1 + 1 / 2 ^ 54) * 2 ^ 52" using assms(2) by (intro mult_right_mono) simp_all
  then have "r * 2 ^ 52 \<le> 2 ^ 52 + 1 / 4" by simp
  moreover have "1 * 2 ^ 52 < r * 2 ^ 52" using r by (intro mult_strict_right_mono) simp_all
  ultimately have "\<bar>r * 2 ^ 52 - of_int (2 ^ 52)\<bar> < 1 / 2" by simp
  then have "rne (r / 2 powi (0 - 52)) = 2 ^ 52" unfolding e by (rule rne_near)
  moreover have "2 powi 0 \<le> \<bar>r\<bar>" "\<bar>r\<bar> < 2 powi (0 + 1)" using r assms(2) by simp_all
  ultimately have "round64 r = Fin (of_int (2 ^ 52) * 2 powi (0 - 52))"
    using round64_eval [of 0 r] by simp
  then have "round64 r = Fin 1" by (simp add: power_int_minus)
  then show ?thesis by simp
qed

lemma ema_step:
  assumes "0 < a" "a < 1" "round64 a = Fin a" "0 \<le> v" "v \<le> 1" "0 \<le> x" "x \<le> 1"
  shows "\<exists>y. nadd (nmul (Fin a) (Fin x)) (nmul (nsub (Fin 1) (Fin a)) (Fin v)) = Fin y \<and>
             0 \<le> y \<and> y \<le> 1 \<and> \<bar>y - (a * x + (1 - a) * v)\<bar> \<le> 3 / 2 ^ 53"
proof -
  have p54: "(2::real) powi (0 - 54) = 1 / 2 ^ 54" "(2::real) powi (1 - 54) = 1 / 2 ^ 53"
    by (simp_all add: power_int_minus field_simps)
  have "\<bar>1 - a\<bar> < 2 powi 0" using assms(1,2) by simp
  from round64_abs_err [OF this] obtain s where
    s: "round64 (1 - a) = Fin s" "\<bar>s - (1 - a)\<bar> \<le> 1 / 2 ^ 54" unfolding p54 by auto
  have "\<exists>z. round64 (1 - a) = Fin z \<and> 0 \<le> z \<and> z \<le> 1"
    using assms(1,2) by (intro round64_le_rep) simp_all
  then have s01: "0 \<le> s" "s \<le> 1" using s(1) by auto
  have ss: "round64 s = Fin s" using s(1) by (rule round64_idem)
  have ax: "0 \<le> a * x" "a * x \<le> a" "\<bar>a * x\<bar> < 2 powi 0"
  proof -
    show "0 \<le> a * x" using assms(1,6) by simp
    show "a * x \<le> a" using assms(1,7) by (simp add: mult_left_le)
    then show "\<bar>a * x\<bar> < 2 powi 0" using assms(2) \<open>0 \<le> a * x\<close> by simp
  qed
  from round64_abs_err [OF ax(3)] obtain m1 where
    m1: "round64 (a * x) = Fin m1" "\<bar>m1 - a * x\<bar> \<le> 1 / 2 ^ 54" unfolding p54 by auto
  from round64_le_rep [OF ax(1,2) assms(3)] m1(1) have m1b: "0 \<le> m1" "m1 \<le> a" by auto
  have sv: "0 \<le> s * v" "s * v \<le> s" "\<bar>s * v\<bar> < 2 powi 1"
  proof -
    show "0 \<le> s * v" using s01(1) assms(4) by simp
    show "s * v \<le> s" using s01(1) assms(5) by (simp add: mult_left_le)
    then show "\<bar>s * v\<bar> < 2 powi 1" using s01(2) \<open>0 \<le> s * v\<close> by simp
  qed
  from round64_abs_err [OF sv(3)] obtain m2 where
    m2: "round64 (s * v) = Fin m2" "\<bar>m2 - s * v\<bar> \<le> 1 / 2 ^ 53" unfolding p54 by auto
  from round64_le_rep [OF sv(1,2) ss] m2(1) have m2b: "0 \<le> m2" "m2 \<le> s" by auto
  have r0: "0 \<le> m1 + m2" using m1b(1) m2b(1) by simp
  have r1: "m1 + m2 \<le> 1 + 1 / 2 ^ 54" using m1b(2) m2b(2) s(2) by linarith
  have "\<bar>m1 + m2\<bar> < 2 powi 1" using r0 r1 by simp
  from round64_abs_err [OF this] obtain y where
    y: "round64 (m1 + m2) = Fin y" "\<bar>y - (m1 + m2)\<bar> \<le> 1 / 2 ^ 53" unfolding p54 by auto
  from round64_near_one [OF r0 r1] y(1) have yb: "0 \<le> y" "y \<le> 1" by auto
  have "\<bar>(s - (1 - a)) * v\<bar> \<le> 1 / 2 ^ 54"
  proof -
    have "\<bar>(s - (1 - a)) * v\<bar> = \<bar>s - (1 - a)\<bar> * v" using assms(4) by (simp add: abs_mult)
    also have "\<dots> \<le> \<bar>s - (1 - a)\<bar> * 1" using assms(5) by (intro mult_left_mono) simp_all
    finally show ?thesis using s(2) by simp
  qed
  then have "\<bar>s * v - (1 - a) * v\<bar> \<le> 1 / 2 ^ 54" by (simp add: algebra_simps)
  then have "\<bar>y - (a * x + (1 - a) * v)\<bar> \<le> 1 / 2 ^ 53 + 1 / 2 ^ 54 + 1 / 2 ^ 53 + 1 / 2 ^ 54"
    using y(2) m1(2) m2(2) by linarith
  then have e: "\<bar>y - (a * x + (1 - a) * v)\<bar> \<le> 3 / 2 ^ 53" by simp
  have "nadd (nmul (Fin a) (Fin x)) (nmul (nsub (Fin 1) (Fin a)) (Fin v)) = Fin y"
    using s(1) m1(1) m2(1) y(1) by (simp add: nsub_def)
  then show ?thesis using yb e by blast
qed

lemma ema_component_step:
  assumes "0 < a" "a < 1" "round64 a = Fin a"
    and "k \<in> set (keys V)" "k \<noteq> ''__proto__''" "component V k = Fin v" "0 \<le> v" "v \<le> 1"
    and "component q k = Fin x" "0 \<le> x" "x \<le> 1"
  shows "\<exists>y. component (emaExpressions (Some q) V (Fin a)) k = Fin y \<and> 0 \<le> y \<and> y \<le> 1 \<and>
             \<bar>y - v\<bar> \<le> a * \<bar>x - v\<bar> + 3 / 2 ^ 53"
proof -
  from ema_step [OF assms(1-3,7,8,10,11)] obtain y where
    y: "nadd (nmul (Fin a) (Fin x)) (nmul (nsub (Fin 1) (Fin a)) (Fin v)) = Fin y"
    "0 \<le> y" "y \<le> 1" "\<bar>y - (a * x + (1 - a) * v)\<bar> \<le> 3 / 2 ^ 53"
    by blast
  have "component (emaExpressions (Some q) V (Fin a)) k =
          nadd (nmul (Fin a) (component q k)) (nmul (nsub (Fin 1) (Fin a)) (component V k))"
    using assms(4,5) by (rule component_emaExpressions)
  then have c: "component (emaExpressions (Some q) V (Fin a)) k = Fin y"
    unfolding assms(6,9) y(1) .
  have "y - v = (y - (a * x + (1 - a) * v)) + a * (x - v)" by (simp add: algebra_simps)
  then have "\<bar>y - v\<bar> \<le> \<bar>y - (a * x + (1 - a) * v)\<bar> + \<bar>a * (x - v)\<bar>" by linarith
  also have "\<bar>a * (x - v)\<bar> = a * \<bar>x - v\<bar>" using assms(1) by (simp add: abs_mult)
  finally have "\<bar>y - v\<bar> \<le> a * \<bar>x - v\<bar> + 3 / 2 ^ 53" using y(4) by linarith
  then show ?thesis using c y(2,3) by blast
qed

lemma ema_iter_bound:
  assumes "0 < a" "a < 1" "round64 a = Fin a"
    and "k \<in> set (keys V)" "k \<noteq> ''__proto__''" "component V k = Fin v" "0 \<le> v" "v \<le> 1"
    and "component p k = Fin x" "0 \<le> x" "x \<le> 1"
  shows "\<exists>y. component (ema_iter n p V (Fin a)) k = Fin y \<and> 0 \<le> y \<and> y \<le> 1 \<and>
             \<bar>y - v\<bar> \<le> a ^ n * \<bar>x - v\<bar> + 3 / (2 ^ 53 * (1 - a))"
proof (induction n)
  case 0
  have "0 \<le> 3 / (2 ^ 53 * (1 - a))" using assms(2) by simp
  then show ?case using assms(9,10,11) by simp
next
  case (Suc n)
  then obtain y where y: "component (ema_iter n p V (Fin a)) k = Fin y" "0 \<le> y" "y \<le> 1"
    "\<bar>y - v\<bar> \<le> a ^ n * \<bar>x - v\<bar> + 3 / (2 ^ 53 * (1 - a))"
    by blast
  from ema_component_step [OF assms(1-8) y(1-3)] obtain y' where
    y': "component (ema_iter (Suc n) p V (Fin a)) k = Fin y'" "0 \<le> y'" "y' \<le> 1"
    "\<bar>y' - v\<bar> \<le> a * \<bar>y - v\<bar> + 3 / 2 ^ 53"
    by auto
  define E :: real where "E = 3 / 2 ^ 53"
  have E: "3 / (2 ^ 53 * (1 - a)) = E / (1 - a)" by (simp add: E_def)
  have "a * \<bar>y - v\<bar> \<le> a * (a ^ n * \<bar>x - v\<bar> + E / (1 - a))"
    using y(4) assms(1) unfolding E by (intro mult_left_mono) simp_all
  then have "\<bar>y' - v\<bar> \<le> a * (a ^ n * \<bar>x - v\<bar> + E / (1 - a)) + E"
    using y'(4) unfolding E_def by linarith
  also have "\<dots> = a ^ Suc n * \<bar>x - v\<bar> + E / (1 - a)"
    using assms(2) by (simp add: field_simps)
  finally show ?case using y'(1-3) unfolding E by blast
qed

section \<open>One identity per detection within a frame (C1)\<close>

text \<open>
  C1 asks that no two detections of one batch end the call of \<^verbatim>\<open>assignTracks\<close> with the same
  \<^verbatim>\<open>trackId\<close>. The function declares \<^verbatim>\<open>const used = new Set()\<close> and never adds to it nor
  reads it, so nothing keeps a track that one detection has claimed from being claimed again.
  From the initial state, a frame with a small face centred at (250, 100) and a large face
  centred at (100, 100) gives both detections the identity 1: the small face creates track 1,
  and the large face, 150 away and 200 wide, is matched to it.
\<close>

theorem assignTracks_shares_identity:
  "map trackId (snd (assignTracks 0 init [small_face, big_face])) = [Some 1, Some 1]"
  by (simp add: run_defs init_def small_face_def big_face_def hypot_150 del: hypot.simps)

section \<open>The smoother on a present previous vector (C2)\<close>

text \<open>
  C2, as the code has it. When the previous vector is present, \<^verbatim>\<open>emaExpressions\<close> returns a
  vector whose keys are those of the current one, in the same order, without the key
  \<^verbatim>\<open>__proto__\<close> (assigning a number to it adds no property), and every component is
  \<open>alpha * previous[name] + (1 - alpha) * current[name]\<close> evaluated in double arithmetic, each
  of the four operations rounded, overflowing to an infinity, or giving \<^verbatim>\<open>NaN\<close> as JavaScript
  does. A component that the current vector has and the previous one lacks comes out as
  \<^verbatim>\<open>NaN\<close>, since \<^verbatim>\<open>previous[name]\<close> is \<^verbatim>\<open>undefined\<close>.
\<close>

theorem emaExpressions_present:
  "keys (emaExpressions (Some p) cur alpha) = filter (\<lambda>k. k \<noteq> ''__proto__'') (keys cur) \<and>
   (\<forall>k \<in> set (keys cur). k \<noteq> ''__proto__'' \<longrightarrow>
      component (emaExpressions (Some p) cur alpha) k =
        nadd (nmul alpha (component p k)) (nmul (nsub (Fin 1) alpha) (component cur k))) \<and>
   (\<forall>k \<in> set (keys cur). k \<noteq> ''__proto__'' \<longrightarrow> k \<notin> set (keys p) \<longrightarrow>
      component (emaExpressions (Some p) cur alpha) k = NaN)"
  by (simp add: keys_emaExpressions component_emaExpressions component_missing)

theorem emaExpressions_present_witness:
  "keys (emaExpressions (Some happy_only) happy_sad (round64 (6 / 10))) = [''happy'', ''sad''] \<and>
   component (emaExpressions (Some happy_only) happy_sad (round64 (6 / 10))) ''happy''
     = Fin (3332663724254167 / 4503599627370496) \<and>
   component (emaExpressions (Some happy_only) happy_sad (round64 (6 / 10))) ''sad'' = NaN \<and>
   keys (emaExpressions (Some happy_only) proto_vec (round64 (6 / 10))) = [''happy'']"
proof -
  note t = emaExpressions_present [of happy_only happy_sad "round64 (6 / 10)"]
  have k: "keys happy_sad = [''happy'', ''sad'']" "keys happy_only = [''happy'']"
    by (simp_all add: happy_sad_def happy_only_def keys_def)
  have m: "''happy'' \<in> set (keys happy_sad)" "''happy'' \<noteq> ''__proto__''"
    "''sad'' \<in> set (keys happy_sad)" "''sad'' \<noteq> ''__proto__''"
    "''sad'' \<notin> set (keys happy_only)"
    by (simp_all add: k)
  have "keys (emaExpressions (Some happy_only) happy_sad (round64 (6 / 10)))
          = filter (\<lambda>k. k \<noteq> ''__proto__'') (keys happy_sad)"
    using t by (rule conjunct1)
  then have a: "keys (emaExpressions (Some happy_only) happy_sad (round64 (6 / 10)))
                  = [''happy'', ''sad'']"
    by (simp add: k)
  have "component (emaExpressions (Some happy_only) happy_sad (round64 (6 / 10))) ''happy''
      = nadd (nmul (round64 (6 / 10)) (component happy_only ''happy''))
          (nmul (nsub (Fin 1) (round64 (6 / 10))) (component happy_sad ''happy''))"
    using t [THEN conjunct2, THEN conjunct1, rule_format, OF m(1,2)] .
  then have b: "component (emaExpressions (Some happy_only) happy_sad (round64 (6 / 10))) ''happy''
      = Fin (3332663724254167 / 4503599627370496)"
    by (simp add: happy_only_def happy_sad_def component_def doubles del: nmul.simps nadd.simps)
  have c: "component (emaExpressions (Some happy_only) happy_sad (round64 (6 / 10))) ''sad'' = NaN"
    using t [THEN conjunct2, THEN conjunct2, rule_format, OF m(3,4,5)] .
  have "keys (emaExpressions (Some happy_only) proto_vec (round64 (6 / 10)))
          = filter (\<lambda>k. k \<noteq> ''__proto__'') (keys proto_vec)"
    using emaExpressions_present [of happy_only proto_vec "round64 (6 / 10)"] by (rule conjunct1)
  then have d: "keys (emaExpressions (Some happy_only) proto_vec (round64 (6 / 10))) = [''happy'']"
    by (simp add: proto_vec_def keys_def)
  show ?thesis using a b c d by (intro conjI)
qed

text \<open>
  The claim as written fails in three ways. The component \<^verbatim>\<open>sad\<close> is a key of the current
  vector and not of the previous one, and its smoothed component is \<^verbatim>\<open>NaN\<close>, not the current
  value 0.5. The key set is not that of the current vector when this has the key
  \<^verbatim>\<open>__proto__\<close>. And the component is the rounded value of the formula, not its exact value:
  with 0.9 before and now and \<open>alpha\<close> 0.6 the exact value is the double 0.9 and the component is
  the next double above it.
\<close>

theorem emaExpressions_missing_counterexample:
  "''sad'' \<in> set (keys happy_sad) \<and> ''sad'' \<notin> set (keys happy_only) \<and>
   component happy_sad ''sad'' = Fin (1 / 2) \<and>
   component (emaExpressions (Some happy_only) happy_sad (round64 (6 / 10))) ''sad'' \<noteq> Fin (1 / 2) \<and>
   keys (emaExpressions (Some happy_only) proto_vec (round64 (6 / 10))) \<noteq> keys proto_vec \<and>
   component nine_tenths ''happy'' = Fin (8106479329266893 / 9007199254740992) \<and>
   component (emaExpressions (Some nine_tenths) nine_tenths (round64 (6 / 10))) ''happy''
     = Fin (8106479329266894 / 9007199254740992)"
proof -
  have "component (emaExpressions (Some happy_only) happy_sad (round64 (6 / 10))) ''sad'' = NaN"
    by (simp add: happy_only_def happy_sad_def keys_def component_def emaExpressions_def)
  moreover have "keys (emaExpressions (Some happy_only) proto_vec (round64 (6 / 10))) = [''happy'']"
    by (simp add: proto_vec_def keys_def emaExpressions_def)
  moreover have "component (emaExpressions (Some nine_tenths) nine_tenths (round64 (6 / 10))) ''happy''
      = Fin (4053239664633447 / 4503599627370496)"
    by (simp add: nine_tenths_def keys_def component_def emaExpressions_def doubles
        times_0_9_rest sum_0_9 del: nmul.simps nadd.simps)
  ultimately show ?thesis
    by (simp add: happy_only_def happy_sad_def proto_vec_def nine_tenths_def keys_def
        component_def double_0_9)
qed

section \<open>What the export carries (C3)\<close>




section \<open>Identities increase and are never reused (C4)\<close>

text \<open>
  C4. Run \<^verbatim>\<open>assignTracks\<close> over any sequence of frames from a state that satisfies the
  invariant (the initial state does, and every call keeps it), and list in order what happens to identities: a detection matched to a track, a
  track created, a track deleted by the cleanup. The identities of these events are the
  \<^verbatim>\<open>trackId\<close>s the frame writes. The identities of the created tracks strictly increase along
  the run and none of them is in the starting table; and after a track is deleted no later
  event, creation or match, carries its identity.
\<close>

theorem identities_increase_never_reused:
  assumes "wf st"
  shows "(\<forall>now ds. wf (fst (assignTracks now st ds))) \<and>
         (\<forall>now ds. map trackId (snd (assignTracks now st ds))
                     = map (\<lambda>e. Some (event_id e)) (matchEvents now st ds)) \<and>
         sorted_wrt (<) (created_ids (runEvents st fs)) \<and>
         (\<forall>i \<in> set (created_ids (runEvents st fs)). i \<notin> fst ` set (tracks st)) \<and>
         (\<forall>pre a post. runEvents st fs = pre @ Deleted a # post \<longrightarrow> a \<notin> event_id ` set post)"
proof (intro conjI ballI allI impI)
  show "wf (fst (assignTracks now st ds))" for now ds
    using assms by (rule wf_assignTracks)
  show "map trackId (snd (assignTracks now st ds))
          = map (\<lambda>e. Some (event_id e)) (matchEvents now st ds)" for now ds
    by (simp add: snd_assignTracks trackIds_matchEvents)
  show "sorted_wrt (<) (created_ids (runEvents st fs))"
    using created_runEvents by blast
  show "i \<notin> fst ` set (tracks st)" if "i \<in> set (created_ids (runEvents st fs))" for i
  proof -
    have "nextId st \<le> i" using that created_runEvents by blast
    then show ?thesis using assms by (auto simp: wf_def)
  qed
  show "a \<notin> event_id ` set post" if "runEvents st fs = pre @ Deleted a # post" for pre a post
    using no_reuse_runEvents [OF assms, of fs] that by (simp add: no_reuse_split)
qed

theorem identities_increase_never_reused_witness:
  "wf init \<and>
   runEvents init example_frames = [Created 1, Matched 1, Created 2, Deleted 1, Created 3] \<and>
   created_ids (runEvents init example_frames) = [1, 2, 3] \<and>
   sorted_wrt (<) (created_ids (runEvents init example_frames)) \<and>
   1 \<notin> event_id ` set [Created 3]"
proof -
  note t = identities_increase_never_reused [OF wf_init, of example_frames]
  have "runEvents init example_frames = [Created 1, Matched 1, Created 2] @ Deleted 1 # [Created 3]"
    by (simp add: run_example_frames)
  with t have "1 \<notin> event_id ` set [Created 3]" by blast
  moreover from t have "sorted_wrt (<) (created_ids (runEvents init example_frames))" by blast
  ultimately show ?thesis using wf_init by (simp add: run_example_frames)
qed

section \<open>Acceptance by the matcher (C5)\<close>

text \<open>
  C5, as the code has it. The distance of a track is the one the code computes:
  \<^verbatim>\<open>Math.hypot\<close> of the differences of the centroid coordinates, in double arithmetic. Let
  the table satisfy the invariant. Then a track is accepted if and only if some active track
  has a computed distance strictly below both 99999, the distance the scan starts from, and
  \<open>max(width, height)\<close>. When a track \<open>b\<close> is accepted, it is an active track with such a
  distance and no active track has a smaller one; it is touched (its centroid becomes the
  detection's, its \<^verbatim>\<open>lastSeen\<close> becomes \<open>now\<close>, its vector is smoothed with the raw one at
  0.6), every other track and \<^verbatim>\<open>nextId\<close> are unchanged, and the detection gets \<open>b\<close>. Otherwise
  a track with the fresh identity \<^verbatim>\<open>nextId\<close> is appended with the detection's centroid, \<open>now\<close>
  and the raw vector, \<^verbatim>\<open>nextId\<close> grows by one, and the detection gets the fresh identity.
  Either way the invariant holds again, so this applies to every detection of the frame.
\<close>

theorem matcher_acceptance:
  assumes "wf st"
  shows "(matched now st det \<noteq> None \<longleftrightarrow>
            (\<exists>(i, t) \<in> set (active now (tracks st)).
               lt (dist_to (centerOf (det_box det)) t) (Fin 99999) \<and>
               lt (dist_to (centerOf (det_box det)) t) (Fin (radius det)))) \<and>
         wf (fst (assignDet now st det)) \<and>
         (\<forall>b. matched now st det = Some b \<longrightarrow>
            (\<exists>t. (b, t) \<in> set (active now (tracks st)) \<and> map_of (tracks st) b = Some t \<and>
                 lt (dist_to (centerOf (det_box det)) t) (Fin 99999) \<and>
                 lt (dist_to (centerOf (det_box det)) t) (Fin (radius det)) \<and>
                 (\<forall>(j, u) \<in> set (active now (tracks st)).
                    \<not> lt (dist_to (centerOf (det_box det)) u) (dist_to (centerOf (det_box det)) t)) \<and>
                 map_of (tracks (fst (assignDet now st det))) b =
                   Some \<lparr>cx = pt_x (centerOf (det_box det)), cy = pt_y (centerOf (det_box det)),
                         lastSeen = now,
                         exprEMA = emaExpressions (Some (exprEMA t)) (expressions det)
                                     (round64 (6 / 10))\<rparr>) \<and>
            (\<forall>j. j \<noteq> b \<longrightarrow>
                 map_of (tracks (fst (assignDet now st det))) j = map_of (tracks st) j) \<and>
            map fst (tracks (fst (assignDet now st det))) = map fst (tracks st) \<and>
            nextId (fst (assignDet now st det)) = nextId st \<and>
            trackId (snd (assignDet now st det)) = Some b) \<and>
         (matched now st det = None \<longrightarrow>
            nextId st \<notin> fst ` set (tracks st) \<and>
            tracks (fst (assignDet now st det)) =
              tracks st @ [(nextId st,
                \<lparr>cx = pt_x (centerOf (det_box det)), cy = pt_y (centerOf (det_box det)),
                  lastSeen = now, exprEMA = expressions det\<rparr>)] \<and>
            nextId (fst (assignDet now st det)) = nextId st + 1 \<and>
            trackId (snd (assignDet now st det)) = Some (nextId st))"
proof (intro conjI allI impI)
  show "matched now st det \<noteq> None \<longleftrightarrow>
          (\<exists>(i, t) \<in> set (active now (tracks st)).
             lt (dist_to (centerOf (det_box det)) t) (Fin 99999) \<and>
             lt (dist_to (centerOf (det_box det)) t) (Fin (radius det)))"
    by (rule matched_iff)
  show "wf (fst (assignDet now st det))" using assms(1) by (rule wf_assignDet)
next
  fix b assume m: "matched now st det = Some b"
  let ?c = "centerOf (det_box det)"
  from matched_active [OF m] obtain t where t: "(b, t) \<in> set (active now (tracks st))"
    "lt (dist_to ?c t) (Fin 99999)" "lt (dist_to ?c t) (Fin (radius det))"
    "\<forall>(j, u) \<in> set (active now (tracks st)). \<not> lt (dist_to ?c u) (dist_to ?c t)"
    by blast
  then have "(b, t) \<in> set (tracks st)" using active_subset by blast
  then have g: "map_of (tracks st) b = Some t"
    using wf_distinct [OF assms(1)] by simp
  have e: "assignDet now st det = updateExisting now st det b"
    using m by (simp add: assignDet_def)
  have u: "map_of (tracks (fst (assignDet now st det))) b =
             Some \<lparr>cx = pt_x ?c, cy = pt_y ?c, lastSeen = now,
                   exprEMA = emaExpressions (Some (exprEMA t)) (expressions det)
                               (round64 (6 / 10))\<rparr>"
    unfolding e tracks_updateExisting map_of_touch using g by simp
  show "\<exists>t. (b, t) \<in> set (active now (tracks st)) \<and> map_of (tracks st) b = Some t \<and>
             lt (dist_to ?c t) (Fin 99999) \<and> lt (dist_to ?c t) (Fin (radius det)) \<and>
             (\<forall>(j, u) \<in> set (active now (tracks st)). \<not> lt (dist_to ?c u) (dist_to ?c t)) \<and>
             map_of (tracks (fst (assignDet now st det))) b =
               Some \<lparr>cx = pt_x ?c, cy = pt_y ?c, lastSeen = now,
                     exprEMA = emaExpressions (Some (exprEMA t)) (expressions det)
                                 (round64 (6 / 10))\<rparr>"
    using t g u by (intro exI [of _ t] conjI)
  show "map_of (tracks (fst (assignDet now st det))) j = map_of (tracks st) j" if "j \<noteq> b" for j
    unfolding e tracks_updateExisting map_of_touch using that by simp
  show "map fst (tracks (fst (assignDet now st det))) = map fst (tracks st)"
    unfolding e by (rule keys_updateExisting)
  show "nextId (fst (assignDet now st det)) = nextId st"
    unfolding e by (rule nextId_updateExisting)
  show "trackId (snd (assignDet now st det)) = Some b"
    using m by (simp add: trackId_assignDet)
next
  assume m: "matched now st det = None"
  then have e: "assignDet now st det = newTrack now st det"
    by (simp add: assignDet_def)
  show "nextId st \<notin> fst ` set (tracks st)" using assms(1) by (rule wf_fresh)
  show "tracks (fst (assignDet now st det)) =
          tracks st @ [(nextId st,
            \<lparr>cx = pt_x (centerOf (det_box det)), cy = pt_y (centerOf (det_box det)),
              lastSeen = now, exprEMA = expressions det\<rparr>)]"
    unfolding e using assms(1) by (rule tracks_newTrack)
  show "nextId (fst (assignDet now st det)) = nextId st + 1"
    unfolding e by (simp add: nextId_newTrack)
  show "trackId (snd (assignDet now st det)) = Some (nextId st)"
    using m by (simp add: trackId_assignDet)
qed

theorem matcher_acceptance_witness:
  "wf after_frame1 \<and>
   matched 50 after_frame1 frame2_det = Some 1 \<and>
   map_of (tracks (fst (assignDet 50 after_frame1 frame2_det))) 1 =
     Some \<lparr>cx = Fin 32, cy = Fin 31, lastSeen = 50,
           exprEMA = [(''happy'', Fin (3332663724254167 / 4503599627370496)),
                      (''neutral'', Fin (1170935903116329 / 4503599627370496))]\<rparr> \<and>
   nextId (fst (assignDet 50 after_frame1 frame2_det)) = 2 \<and>
   trackId (snd (assignDet 50 after_frame1 frame2_det)) = Some 1 \<and>
   matched 50 after_frame1 far_det = None \<and>
   tracks (fst (assignDet 50 after_frame1 far_det)) =
     [(1, \<lparr>cx = Fin 30, cy = Fin 30, lastSeen = 0, exprEMA = start_vec\<rparr>),
      (2, \<lparr>cx = Fin 300, cy = Fin 300, lastSeen = 50, exprEMA = const_vec\<rparr>)] \<and>
   trackId (snd (assignDet 50 after_frame1 far_det)) = Some 2"
proof -
  have t: "map_of (tracks after_frame1) 1
             = Some \<lparr>cx = Fin 30, cy = Fin 30, lastSeen = 0, exprEMA = start_vec\<rparr>"
    by (simp add: after_frame1_def)
  note acc = matcher_acceptance [OF wf_after_frame1, of 50 frame2_det, THEN conjunct2,
      THEN conjunct2, THEN conjunct1, rule_format, OF matched_frame2]
  note rej = matcher_acceptance [OF wf_after_frame1, of 50 far_det, THEN conjunct2,
      THEN conjunct2, THEN conjunct2, rule_format, OF matched_far]
  from acc obtain u where u: "map_of (tracks after_frame1) 1 = Some u"
    "map_of (tracks (fst (assignDet 50 after_frame1 frame2_det))) 1 =
       Some \<lparr>cx = pt_x (centerOf (det_box frame2_det)), cy = pt_y (centerOf (det_box frame2_det)),
             lastSeen = 50,
             exprEMA = emaExpressions (Some (exprEMA u)) (expressions frame2_det)
                         (round64 (6 / 10))\<rparr>"
    by blast
  from u(1) t have "u = \<lparr>cx = Fin 30, cy = Fin 30, lastSeen = 0, exprEMA = start_vec\<rparr>" by simp
  with u(2) have
    "map_of (tracks (fst (assignDet 50 after_frame1 frame2_det))) 1 =
       Some \<lparr>cx = pt_x (centerOf (det_box frame2_det)), cy = pt_y (centerOf (det_box frame2_det)),
             lastSeen = 50,
             exprEMA = emaExpressions (Some start_vec) (expressions frame2_det)
                         (round64 (6 / 10))\<rparr>"
    by simp
  then have a: "map_of (tracks (fst (assignDet 50 after_frame1 frame2_det))) 1 =
     Some \<lparr>cx = Fin 32, cy = Fin 31, lastSeen = 50,
           exprEMA = [(''happy'', Fin (3332663724254167 / 4503599627370496)),
                      (''neutral'', Fin (1170935903116329 / 4503599627370496))]\<rparr>"
    by (simp add: frame2_det_def centerOf_def smoothed_frame2')
  from acc have b: "nextId (fst (assignDet 50 after_frame1 frame2_det)) = nextId after_frame1"
    and c: "trackId (snd (assignDet 50 after_frame1 frame2_det)) = Some 1"
    by blast+
  from rej
  have "tracks (fst (assignDet 50 after_frame1 far_det)) =
          tracks after_frame1 @ [(nextId after_frame1,
            \<lparr>cx = pt_x (centerOf (det_box far_det)), cy = pt_y (centerOf (det_box far_det)),
              lastSeen = 50, exprEMA = expressions far_det\<rparr>)]"
    and d: "trackId (snd (assignDet 50 after_frame1 far_det)) = Some (nextId after_frame1)"
    by blast+
  then have e: "tracks (fst (assignDet 50 after_frame1 far_det)) =
     [(1, \<lparr>cx = Fin 30, cy = Fin 30, lastSeen = 0, exprEMA = start_vec\<rparr>),
      (2, \<lparr>cx = Fin 300, cy = Fin 300, lastSeen = 50, exprEMA = const_vec\<rparr>)]"
    by (simp add: after_frame1_def far_det_def centerOf_def)
  have n: "nextId after_frame1 = 2" by (simp add: after_frame1_def)
  show ?thesis
    using wf_after_frame1 matched_frame2 matched_far a b c d e unfolding n by (intro conjI)
qed

text \<open>
  The claim as written fails in two ways. For a box wider than 99999: the only track is active
  and 100000 away from the centroid of a box of 200000 by 200000, which is strictly less than
  \<open>max(width, height)\<close>, yet no track is accepted and the detection gets the new identity 2.
  And for the distance as a real number: the only track lies \<open>sqrt 2\<close> away from the centroid
  of a box whose width is the double next above \<open>sqrt 2\<close>; \<^verbatim>\<open>Math.hypot(1, 1)\<close> is that double,
  which is not strictly less than itself, so no track is accepted.
\<close>

theorem matcher_sentinel_counterexample:
  "active 0 (tracks one_far) = [(1, far_left)] \<and>
   dist_to (centerOf (det_box wide_det)) far_left = Fin 100000 \<and>
   max (box_width (det_box wide_det)) (box_height (det_box wide_det)) = 200000 \<and>
   matched 0 one_far wide_det = None \<and>
   trackId (snd (assignDet 0 one_far wide_det)) = Some 2 \<and>
   centerOf (det_box unit_det) = \<lparr>pt_x = Fin 1, pt_y = Fin 1\<rparr> \<and>
   cx far_left = Fin 0 \<and> cy far_left = Fin 0 \<and>
   sqrt ((1 - 0)\<^sup>2 + (1 - 0)\<^sup>2) < max (box_width (det_box unit_det)) (box_height (det_box unit_det)) \<and>
   matched 0 one_far unit_det = None \<and>
   trackId (snd (assignDet 0 one_far unit_det)) = Some 2"
proof -
  have a: "active 0 (tracks one_far) = [(1, far_left)]"
    by (simp add: active_def age_def nsub_def one_far_def far_left_def)
  have d: "dist_to (centerOf (det_box wide_det)) far_left = Fin 100000"
    by (simp add: dist_to_def centerOf_def nsub_def wide_det_def far_left_def hypot_100000
        del: hypot.simps)
  have m: "matched 0 one_far wide_det = None"
    by (simp add: run_defs one_far_def far_left_def wide_det_def hypot_100000 del: hypot.simps)
  have d1: "dist_to (centerOf (det_box unit_det)) far_left
              = Fin (6369051672525773 / 4503599627370496)"
    by (simp add: center_unit_det dist_to_def nsub_def far_left_def hypot_1_1 del: hypot.simps)
  have m1: "matched 0 one_far unit_det = None"
    using d1 by (simp add: matched_def one_far_def stale_def age_def nsub_def)
      (simp add: far_left_def unit_det_def)
  have s: "sqrt ((1 - 0)\<^sup>2 + (1 - 0)\<^sup>2)
             < max (box_width (det_box unit_det)) (box_height (det_box unit_det))"
    using sqrt_2_below by (simp add: unit_det_def)
  have i: "trackId (snd (assignDet 0 one_far wide_det)) = Some 2"
    "trackId (snd (assignDet 0 one_far unit_det)) = Some 2"
    using m m1 by (simp_all add: assignDet_def newTrack_def Let_def one_far_def)
  have w: "max (box_width (det_box wide_det)) (box_height (det_box wide_det)) = 200000"
    by (simp add: wide_det_def)
  have f: "cx far_left = Fin 0" "cy far_left = Fin 0" by (simp_all add: far_left_def)
  show ?thesis using a d w m i(1) center_unit_det f s m1 i(2) by (intro conjI)
qed

section \<open>Match window and expiry window (C6)\<close>

text \<open>
  C6. Let the table satisfy the invariant, and let \<open>now - lastSeen\<close> be the difference the code
  computes. A track of the table for which it exceeds 1500 ms is, while the frame's detections
  are processed, never the track a detection is matched to, and it stays in the table
  unchanged. After the cleanup at the end of the frame the identity of any track of the table,
  stale or not, is still in the table exactly when its \<open>now - lastSeen\<close> at the start of the
  frame does not exceed 3000 ms; the cleanup removes nothing else, since every track created
  in the frame is in the table after it, and it adds nothing. For a track last matched at time
  0 the difference is \<open>now\<close> itself: it is out of the matching from 1500 on and deleted exactly
  when \<open>now\<close> exceeds 3000, so it is present after the frame at 2000 ms and gone after the
  frame at 3100 ms.
\<close>

theorem stale_track_lifecycle:
  assumes "wf st"
  shows "(\<forall>(i, t) \<in> set (tracks st). stale now t \<longrightarrow>
            (\<forall>ds d. matched now (fst (assignLoop now st ds)) d \<noteq> Some i) \<and>
            (\<forall>ds. (i, t) \<in> set (tracks (fst (assignLoop now st ds)))) \<and>
            ((i, t) \<in> set (tracks (fst (assignTracks now st ds))) \<longleftrightarrow>
               \<not> lt (Fin 3000) (age now t))) \<and>
         (\<forall>(i, t) \<in> set (tracks st).
            i \<in> fst ` set (tracks (fst (assignTracks now st ds))) \<longleftrightarrow>
              \<not> lt (Fin 3000) (age now t)) \<and>
         (\<forall>j \<in> fst ` set (tracks (fst (assignLoop now st ds))).
            j \<notin> fst ` set (tracks st) \<longrightarrow>
              j \<in> fst ` set (tracks (fst (assignTracks now st ds)))) \<and>
         set (tracks (fst (assignTracks now st ds))) \<subseteq> set (tracks (fst (assignLoop now st ds))) \<and>
         (\<forall>(i, t) \<in> set (tracks st). lastSeen t = 0 \<and> round64 now = Fin now \<longrightarrow>
            (stale now t \<longleftrightarrow> 1500 < now) \<and>
            (i \<in> fst ` set (tracks (fst (assignTracks now st ds))) \<longleftrightarrow> \<not> 3000 < now))"
proof (intro conjI ballI)
  fix p assume p: "p \<in> set (tracks st)"
  obtain i t where it: "p = (i, t)" by (cases p)
  have k: "(i, t) \<in> set (tracks (fst (assignLoop now st ds')))" if "stale now t" for ds'
    using assms p [unfolded it] that by (rule kept_assignLoop)
  have w: "wf (fst (assignLoop now st ds'))" for ds'
    using assms by (rule wf_assignLoop)
  have m: "matched now (fst (assignLoop now st ds')) d \<noteq> Some i" if "stale now t" for ds' d
    using w k [OF that] that by (rule matched_not_stale)
  have e: "(i, t) \<in> set (tracks (fst (assignTracks now st ds))) \<longleftrightarrow> \<not> lt (Fin 3000) (age now t)"
    if "stale now t"
    using k [OF that, of ds] by (simp add: tracks_assignTracks cleanup_iff)
  show "case p of (i, t) \<Rightarrow> stale now t \<longrightarrow>
            (\<forall>ds d. matched now (fst (assignLoop now st ds)) d \<noteq> Some i) \<and>
            (\<forall>ds. (i, t) \<in> set (tracks (fst (assignLoop now st ds)))) \<and>
            ((i, t) \<in> set (tracks (fst (assignTracks now st ds))) \<longleftrightarrow>
               \<not> lt (Fin 3000) (age now t))"
    unfolding it using m k e by simp
  show "case p of (i, t) \<Rightarrow>
            i \<in> fst ` set (tracks (fst (assignTracks now st ds))) \<longleftrightarrow>
              \<not> lt (Fin 3000) (age now t)"
    unfolding it using key_after_frame [OF assms p [unfolded it], of now ds] by simp
  have z: "age now t = Fin now" if "lastSeen t = 0" "round64 now = Fin now"
    using that by (simp add: age_def nsub_def)
  show "case p of (i, t) \<Rightarrow> lastSeen t = 0 \<and> round64 now = Fin now \<longrightarrow>
            (stale now t \<longleftrightarrow> 1500 < now) \<and>
            (i \<in> fst ` set (tracks (fst (assignTracks now st ds))) \<longleftrightarrow> \<not> 3000 < now)"
    unfolding it using key_after_frame [OF assms p [unfolded it], of now ds] z
    by (simp add: stale_def)
next
  fix j assume j: "j \<in> fst ` set (tracks (fst (assignLoop now st ds)))"
  show "j \<notin> fst ` set (tracks st) \<longrightarrow> j \<in> fst ` set (tracks (fst (assignTracks now st ds)))"
  proof
    assume n: "j \<notin> fst ` set (tracks st)"
    from j obtain u where u: "(j, u) \<in> set (tracks (fst (assignLoop now st ds)))" by auto
    have "lastSeen u = now" using assms u n by (rule new_assignLoop)
    then have "\<not> lt (Fin 3000) (age now u)" by (simp add: age_now)
    then have "(j, u) \<in> set (tracks (fst (assignTracks now st ds)))"
      using u by (simp add: tracks_assignTracks cleanup_iff)
    then show "j \<in> fst ` set (tracks (fst (assignTracks now st ds)))" by force
  qed
next
  show "set (tracks (fst (assignTracks now st ds))) \<subseteq> set (tracks (fst (assignLoop now st ds)))"
    by (auto simp: tracks_assignTracks cleanup_iff)
qed

theorem stale_track_lifecycle_witness:
  "wf one_old \<and> (1, old_track) \<in> set (tracks one_old) \<and> lastSeen old_track = 0 \<and>
   stale 2000 old_track \<and>
   matched 2000 one_old frame1_det \<noteq> Some 1 \<and>
   (1, old_track) \<in> set (tracks (fst (assignTracks 2000 one_old [frame1_det]))) \<and>
   1 \<notin> fst ` set (tracks (fst (assignTracks 3100 one_old [frame1_det]))) \<and>
   \<not> stale 1000 old_track \<and>
   1 \<in> fst ` set (tracks (fst (assignTracks 1000 one_old [far_det]))) \<and>
   2 \<in> fst ` set (tracks (fst (assignLoop 1000 one_old [far_det]))) \<and>
   2 \<in> fst ` set (tracks (fst (assignTracks 1000 one_old [far_det])))"
proof -
  have h: "wf one_old" "(1, old_track) \<in> set (tracks one_old)"
    by (simp_all add: wf_def one_old_def)
  have l: "lastSeen old_track = 0" by (simp add: old_track_def)
  have s: "stale 2000 old_track" "stale 3100 old_track" "\<not> stale 1000 old_track"
    by (simp_all add: stale_def age_def nsub_def old_track_def)
  have g: "\<not> lt (Fin 3000) (age 2000 old_track)" "lt (Fin 3000) (age 3100 old_track)"
    "\<not> lt (Fin 3000) (age 1000 old_track)"
    by (simp_all add: age_def nsub_def old_track_def)
  note a = stale_track_lifecycle [OF h(1), of 2000 "[frame1_det]", THEN conjunct1, rule_format,
      OF h(2), simplified prod.case, rule_format, OF s(1)]
  note b = stale_track_lifecycle [OF h(1), of 3100 "[frame1_det]", THEN conjunct2,
      THEN conjunct1, rule_format, OF h(2), simplified prod.case]
  note c = stale_track_lifecycle [OF h(1), of 1000 "[far_det]", THEN conjunct2,
      THEN conjunct1, rule_format, OF h(2), simplified prod.case]
  note d = stale_track_lifecycle [OF h(1), of 1000 "[far_det]", THEN conjunct2,
      THEN conjunct2, THEN conjunct1, rule_format, of 2]
  have n: "2 \<in> fst ` set (tracks (fst (assignLoop 1000 one_old [far_det])))"
    "2 \<notin> fst ` set (tracks one_old)"
    by (simp_all add: one_old_def old_track_def far_det_def assignDet_def matched_def
        newTrack_def centerOf_def dist_to_def stale_def age_def nsub_def Let_def hypot_270
        del: hypot.simps)
  from a have "matched 2000 (fst (assignLoop 2000 one_old [])) frame1_det \<noteq> Some 1" by blast
  then have a1: "matched 2000 one_old frame1_det \<noteq> Some 1" by simp
  from a g(1) have a2: "(1, old_track) \<in> set (tracks (fst (assignTracks 2000 one_old [frame1_det])))"
    by blast
  from b g(2) have b1: "1 \<notin> fst ` set (tracks (fst (assignTracks 3100 one_old [frame1_det])))"
    by blast
  from c g(3) have c1: "1 \<in> fst ` set (tracks (fst (assignTracks 1000 one_old [far_det])))"
    by blast
  from d n have d1: "2 \<in> fst ` set (tracks (fst (assignTracks 1000 one_old [far_det])))"
    by blast
  show ?thesis using h l s(1) a1 a2 b1 s(3) c1 n(1) d1 by (intro conjI)
qed

section \<open>Cold start of the smoother (C7)\<close>

text \<open>
  C7. For every expression vector \<open>V\<close> and every \<open>alpha\<close>, smoothing with an absent previous
  value returns exactly \<open>V\<close>.
\<close>

theorem emaExpressions_absent: "emaExpressions None V alpha = V"
  by (simp add: emaExpressions_def)

section \<open>Lookup of a missing track (C8)\<close>

text \<open>
  C8. When a detection carries a track identity that is not a key of the table, both lookups
  of \<^verbatim>\<open>drawBoxesAndEmojis\<close> give the detection's own raw expression vector. The lookups have no
  failing branch: \<^verbatim>\<open>tracks.get(id)?.exprEMA\<close> is \<^verbatim>\<open>undefined\<close> for a missing track.
\<close>

theorem lookup_falls_back:
  assumes "trackId det = Some i" "map_of ts i = None"
  shows "summaryExpr ts det = expressions det \<and> overlayExpr ts det = expressions det"
  using assms by (simp add: summaryExpr_def overlayExpr_def overlayId_def)

theorem lookup_falls_back_witness:
  "trackId (frame1_det\<lparr>trackId := Some 7\<rparr>) = Some 7 \<and> map_of (tracks after_frame1) 7 = None \<and>
   summaryExpr (tracks after_frame1) (frame1_det\<lparr>trackId := Some 7\<rparr>) = start_vec \<and>
   overlayExpr (tracks after_frame1) (frame1_det\<lparr>trackId := Some 7\<rparr>) = start_vec"
proof -
  have h: "trackId (frame1_det\<lparr>trackId := Some 7\<rparr>) = Some 7"
    "map_of (tracks after_frame1) 7 = None"
    by (simp_all add: after_frame1_def)
  from lookup_falls_back [OF h] show ?thesis using h by (simp add: frame1_det_def)
qed

section \<open>Convergence of the smoother (C9)\<close>

text \<open>
  C9, as the code has it. Let \<open>alpha\<close> be a double \<open>a\<close> with \<open>0 < a < 1\<close>, let \<open>k\<close> be a key
  other than \<^verbatim>\<open>__proto__\<close> of the constant current vector \<open>V\<close> with a number \<open>v\<close> in \<open>[0, 1]\<close>
  there, and let the starting vector hold a number \<open>x\<close> in \<open>[0, 1]\<close> at \<open>k\<close>. Then after every
  number of calls the component at \<open>k\<close> is a number in \<open>[0, 1]\<close>; each call brings its distance
  from \<open>v\<close> to at most \<open>a\<close> times the distance before plus \<open>3 / 2^53\<close>, the rounding error of
  the four operations; after \<open>n\<close> calls the distance is at most \<open>a^n\<close> times the first one plus
  \<open>3 / (2^53 * (1 - a))\<close>, and so it is eventually below any bound larger than that.
\<close>

theorem ema_iter_converges:
  assumes "0 < a" "a < 1" "round64 a = Fin a"
    and "k \<in> set (keys V)" "k \<noteq> ''__proto__''" "component V k = Fin v" "0 \<le> v" "v \<le> 1"
    and "component p k = Fin x" "0 \<le> x" "x \<le> 1"
  shows "(\<forall>n. \<exists>y. component (ema_iter n p V (Fin a)) k = Fin y \<and> 0 \<le> y \<and> y \<le> 1 \<and>
                 \<bar>y - v\<bar> \<le> a ^ n * \<bar>x - v\<bar> + 3 / (2 ^ 53 * (1 - a))) \<and>
         (\<forall>n y y'. component (ema_iter n p V (Fin a)) k = Fin y \<and>
                   component (ema_iter (Suc n) p V (Fin a)) k = Fin y' \<longrightarrow>
                   \<bar>y' - v\<bar> \<le> a * \<bar>y - v\<bar> + 3 / 2 ^ 53) \<and>
         (\<forall>e > 0. \<exists>N. \<forall>n \<ge> N. \<forall>y. component (ema_iter n p V (Fin a)) k = Fin y \<longrightarrow>
                   \<bar>y - v\<bar> < 3 / (2 ^ 53 * (1 - a)) + e)"
proof (intro conjI allI impI)
  fix n
  show "\<exists>y. component (ema_iter n p V (Fin a)) k = Fin y \<and> 0 \<le> y \<and> y \<le> 1 \<and>
            \<bar>y - v\<bar> \<le> a ^ n * \<bar>x - v\<bar> + 3 / (2 ^ 53 * (1 - a))"
    using assms by (rule ema_iter_bound)
next
  fix n y y'
  assume h: "component (ema_iter n p V (Fin a)) k = Fin y \<and>
             component (ema_iter (Suc n) p V (Fin a)) k = Fin y'"
  from ema_iter_bound [OF assms, of n] h have y: "0 \<le> y" "y \<le> 1" by auto
  from ema_component_step [OF assms(1-8) _ y, of "ema_iter n p V (Fin a)"] h
  show "\<bar>y' - v\<bar> \<le> a * \<bar>y - v\<bar> + 3 / 2 ^ 53" by auto
next
  fix e :: real assume e: "0 < e"
  have "(\<lambda>n. a ^ n) \<longlonglongrightarrow> 0" using assms(1,2) by (intro LIMSEQ_realpow_zero) simp_all
  then have "(\<lambda>n. a ^ n * \<bar>x - v\<bar>) \<longlonglongrightarrow> 0" by (rule tendsto_mult_left_zero)
  from LIMSEQ_D [OF this e] obtain N where
    N: "\<forall>n \<ge> N. norm (a ^ n * \<bar>x - v\<bar> - 0) < e" by blast
  show "\<exists>N. \<forall>n \<ge> N. \<forall>y. component (ema_iter n p V (Fin a)) k = Fin y \<longrightarrow>
          \<bar>y - v\<bar> < 3 / (2 ^ 53 * (1 - a)) + e"
  proof (intro exI [of _ N] allI impI)
    fix n y assume n: "N \<le> n" and c: "component (ema_iter n p V (Fin a)) k = Fin y"
    from ema_iter_bound [OF assms, of n] c
    have "\<bar>y - v\<bar> \<le> a ^ n * \<bar>x - v\<bar> + 3 / (2 ^ 53 * (1 - a))" by auto
    moreover have "a ^ n * \<bar>x - v\<bar> < e" using N n by auto
    ultimately show "\<bar>y - v\<bar> < 3 / (2 ^ 53 * (1 - a)) + e" by linarith
  qed
qed

theorem ema_iter_converges_witness:
  "(0::real) < 5404319552844595 / 9007199254740992 \<and>
   (5404319552844595 / 9007199254740992 :: real) < 1 \<and>
   round64 (6 / 10) = Fin (5404319552844595 / 9007199254740992) \<and>
   round64 (5404319552844595 / 9007199254740992) = Fin (5404319552844595 / 9007199254740992) \<and>
   ''happy'' \<in> set (keys const_vec) \<and>
   component const_vec ''happy'' = Fin (1 / 2) \<and>
   component start_vec ''happy'' = Fin (8106479329266893 / 9007199254740992) \<and>
   component (ema_iter (Suc 0) start_vec const_vec (round64 (6 / 10))) ''happy''
     = Fin (3332663724254167 / 4503599627370496) \<and>
   \<bar>3332663724254167 / 4503599627370496 - 1 / 2 :: real\<bar>
     \<le> (5404319552844595 / 9007199254740992) ^ Suc 0 * \<bar>8106479329266893 / 9007199254740992 - 1 / 2\<bar>
       + 3 / (2 ^ 53 * (1 - 5404319552844595 / 9007199254740992))"
proof -
  let ?a = "5404319552844595 / 9007199254740992 :: real"
  have r: "round64 ?a = Fin ?a" using double_0_6 by (rule round64_idem)
  have h: "0 < ?a" "?a < 1" "''happy'' \<in> set (keys const_vec)" "''happy'' \<noteq> ''__proto__''"
    "component const_vec ''happy'' = Fin (1 / 2)" "(0::real) \<le> 1 / 2" "(1 / 2 :: real) \<le> 1"
    "component start_vec ''happy'' = Fin (8106479329266893 / 9007199254740992)"
    "(0::real) \<le> 8106479329266893 / 9007199254740992"
    "(8106479329266893 / 9007199254740992 :: real) \<le> 1"
    by (simp_all add: const_vec_def start_vec_def keys_def component_def double_0_9)
  have "emaExpressions (Some start_vec) const_vec (Fin ?a) =
     [(''happy'', Fin (3332663724254167 / 4503599627370496)),
      (''neutral'', Fin (1170935903116329 / 4503599627370496))]"
    using smoothed_frame2 unfolding double_0_6 .
  then have c: "component (ema_iter (Suc 0) start_vec const_vec (Fin ?a)) ''happy''
             = Fin (3332663724254167 / 4503599627370496)"
    by (simp add: component_def)
  from ema_iter_converges [OF h(1,2) r h(3-10), THEN conjunct1, rule_format, of "Suc 0"]
  obtain y where y: "component (ema_iter (Suc 0) start_vec const_vec (Fin ?a)) ''happy'' = Fin y"
    "\<bar>y - 1 / 2\<bar> \<le> ?a ^ Suc 0 * \<bar>8106479329266893 / 9007199254740992 - 1 / 2\<bar>
                     + 3 / (2 ^ 53 * (1 - ?a))"
    by blast
  from y(1) c have "y = 3332663724254167 / 4503599627370496" by simp
  with y(2) have b: "\<bar>3332663724254167 / 4503599627370496 - 1 / 2 :: real\<bar>
     \<le> ?a ^ Suc 0 * \<bar>8106479329266893 / 9007199254740992 - 1 / 2\<bar> + 3 / (2 ^ 53 * (1 - ?a))"
    by simp
  have c': "component (ema_iter (Suc 0) start_vec const_vec (round64 (6 / 10))) ''happy''
             = Fin (3332663724254167 / 4503599627370496)"
    using c unfolding double_0_6 .
  show ?thesis using h(1,2) double_0_6 r h(3,5,8) c' b by (intro conjI)
qed

text \<open>
  The claim as written fails in two ways. The difference does not shrink strictly on each call
  until it is zero, and need not stay zero: with the starting vector equal to \<open>V\<close>, the
  component 0.9 and \<open>alpha\<close> 0.6, the difference is zero before the first call and the component
  is the next double above 0.9 after it. And for a starting vector that lacks a key of \<open>V\<close>,
  such as the empty object, the component is \<^verbatim>\<open>NaN\<close> after one call and after two.
\<close>

theorem ema_iter_missing_key_counterexample:
  "component nine_tenths ''happy'' = Fin (8106479329266893 / 9007199254740992) \<and>
   component (ema_iter 0 nine_tenths nine_tenths (round64 (6 / 10))) ''happy''
     = Fin (8106479329266893 / 9007199254740992) \<and>
   component (ema_iter (Suc 0) nine_tenths nine_tenths (round64 (6 / 10))) ''happy''
     = Fin (8106479329266894 / 9007199254740992) \<and>
   component const_vec ''happy'' = Fin (1 / 2) \<and>
   component (ema_iter (Suc 0) [] const_vec (round64 (6 / 10))) ''happy'' = NaN \<and>
   component (ema_iter (Suc (Suc 0)) [] const_vec (round64 (6 / 10))) ''happy'' = NaN"
proof -
  have a: "component nine_tenths ''happy'' = Fin (8106479329266893 / 9007199254740992)"
    by (simp add: nine_tenths_def component_def double_0_9)
  have "component (emaExpressions (Some nine_tenths) nine_tenths (round64 (6 / 10))) ''happy''
      = Fin (4053239664633447 / 4503599627370496)"
    by (simp add: nine_tenths_def keys_def component_def emaExpressions_def doubles
        times_0_9_rest sum_0_9 del: nmul.simps nadd.simps)
  then have b: "component (ema_iter (Suc 0) nine_tenths nine_tenths (round64 (6 / 10))) ''happy''
     = Fin (8106479329266894 / 9007199254740992)"
    by simp
  have c: "component const_vec ''happy'' = Fin (1 / 2)"
    by (simp add: const_vec_def component_def)
  have d: "component (ema_iter (Suc 0) [] const_vec (round64 (6 / 10))) ''happy'' = NaN"
    "component (ema_iter (Suc (Suc 0)) [] const_vec (round64 (6 / 10))) ''happy'' = NaN"
    by (simp_all add: const_vec_def keys_def component_def emaExpressions_def)
  show ?thesis using a b c d by simp
qed

section \<open>Ties at the minimum distance (C10)\<close>

text \<open>
  C10, as the code has it. The distance of a track is the one the code computes. Let the table
  list its identities in increasing order, which is the order of insertion. The scan of the
  matcher selects no track exactly when no active track has a computed distance below 99999,
  the distance the scan starts from. Otherwise it ends with an active track whose computed
  distance is below 99999 and not above that of any active track, and with this distance;
  among the active tracks at exactly this distance the selected one has the smallest identity,
  so it is the one inserted first. The same holds for a track that the matcher accepts.
\<close>

theorem tie_break_first_inserted:
  assumes "sorted_wrt (<) (map fst ts)"
  shows "(fst (nearest now c ts (None, Fin 99999)) = None \<longleftrightarrow>
            (\<forall>(j, u) \<in> set (active now ts). \<not> lt (dist_to c u) (Fin 99999))) \<and>
         (\<forall>i. fst (nearest now c ts (None, Fin 99999)) = Some i \<longrightarrow>
            (\<exists>t. (i, t) \<in> set (active now ts) \<and>
                 snd (nearest now c ts (None, Fin 99999)) = dist_to c t \<and>
                 lt (dist_to c t) (Fin 99999) \<and>
                 (\<forall>(j, u) \<in> set (active now ts). \<not> lt (dist_to c u) (dist_to c t)) \<and>
                 (\<forall>(j, u) \<in> set (active now ts). dist_to c u = dist_to c t \<longrightarrow> i \<le> j))) \<and>
         (\<forall>(st::state) (det::detection) b. tracks st = ts \<and> matched now st det = Some b \<longrightarrow>
            (\<exists>t. (b, t) \<in> set (active now ts) \<and>
                 (\<forall>(j, u) \<in> set (active now ts).
                    \<not> lt (dist_to (centerOf (det_box det)) u) (dist_to (centerOf (det_box det)) t)) \<and>
                 (\<forall>(j, u) \<in> set (active now ts).
                    dist_to (centerOf (det_box det)) u = dist_to (centerOf (det_box det)) t
                      \<longrightarrow> b \<le> j)))"
proof (intro conjI allI impI)
  show "fst (nearest now c ts (None, Fin 99999)) = None \<longleftrightarrow>
          (\<forall>(j, u) \<in> set (active now ts). \<not> lt (dist_to c u) (Fin 99999))"
    by (rule nearest_None_iff)
next
  fix i assume "fst (nearest now c ts (None, Fin 99999)) = Some i"
  then obtain t where t: "first_nearest c (candidates now c (Fin 99999) ts) = Some (i, t)"
    "snd (nearest now c ts (None, Fin 99999)) = dist_to c t"
    by (auto simp: nearest_scan split: option.splits)
  note a = nearest_active_everywhere [OF t(1)]
  have "\<forall>(j, u) \<in> set (active now ts). dist_to c u = dist_to c t \<longrightarrow> i \<le> j"
    using nearest_first_of_ties [OF assms t(1)] by blast
  then show "\<exists>t. (i, t) \<in> set (active now ts) \<and>
                 snd (nearest now c ts (None, Fin 99999)) = dist_to c t \<and>
                 lt (dist_to c t) (Fin 99999) \<and>
                 (\<forall>(j, u) \<in> set (active now ts). \<not> lt (dist_to c u) (dist_to c t)) \<and>
                 (\<forall>(j, u) \<in> set (active now ts). dist_to c u = dist_to c t \<longrightarrow> i \<le> j)"
    using a t(2) by (intro exI [of _ t] conjI)
next
  fix st :: state and det :: detection and b
  let ?c = "centerOf (det_box det)"
  assume h: "tracks st = ts \<and> matched now st det = Some b"
  then obtain t where t: "first_nearest ?c (candidates now ?c (Fin 99999) ts) = Some (b, t)"
    by (auto simp: matched_scan split: option.splits if_splits)
  note a = nearest_active_everywhere [OF t]
  have "\<forall>(j, u) \<in> set (active now ts). dist_to ?c u = dist_to ?c t \<longrightarrow> b \<le> j"
    using nearest_first_of_ties [OF assms t] by blast
  then show "\<exists>t. (b, t) \<in> set (active now ts) \<and>
                 (\<forall>(j, u) \<in> set (active now ts). \<not> lt (dist_to ?c u) (dist_to ?c t)) \<and>
                 (\<forall>(j, u) \<in> set (active now ts). dist_to ?c u = dist_to ?c t \<longrightarrow> b \<le> j)"
    using a(1,3) by (intro exI [of _ t] conjI)
qed

theorem tie_break_first_inserted_witness:
  "sorted_wrt (<) (map fst (tracks two_near)) \<and>
   active 0 (tracks two_near) = [(1, near_a), (2, near_b)] \<and>
   dist_to \<lparr>pt_x = Fin 30, pt_y = Fin 30\<rparr> near_a = Fin 5 \<and>
   dist_to \<lparr>pt_x = Fin 30, pt_y = Fin 30\<rparr> near_b = Fin 5 \<and>
   nearest 0 \<lparr>pt_x = Fin 30, pt_y = Fin 30\<rparr> (tracks two_near) (None, Fin 99999) = (Some 1, Fin 5)"
proof -
  let ?c = "\<lparr>pt_x = Fin 30, pt_y = Fin 30\<rparr>"
  let ?r = "nearest 0 ?c (tracks two_near) (None, Fin 99999)"
  have s: "sorted_wrt (<) (map fst (tracks two_near))" by (simp add: two_near_def)
  have a: "active 0 (tracks two_near) = [(1, near_a), (2, near_b)]"
    by (simp add: active_two_near) (simp add: two_near_def)
  note t = tie_break_first_inserted [OF s, of 0 ?c]
  have "\<not> (\<forall>(j, u) \<in> set (active 0 (tracks two_near)). \<not> lt (dist_to ?c u) (Fin 99999))"
    by (simp add: a dists_two_near)
  with t have "fst ?r \<noteq> None" by blast
  then obtain i where i: "fst ?r = Some i" by auto
  with t obtain u where u: "(i, u) \<in> set (active 0 (tracks two_near))"
    "snd ?r = dist_to ?c u"
    "\<forall>(j, w) \<in> set (active 0 (tracks two_near)). dist_to ?c w = dist_to ?c u \<longrightarrow> i \<le> j"
    by blast
  from u(1) have d: "dist_to ?c u = Fin 5" by (auto simp: a dists_two_near)
  from u(3) have "i \<le> 1" by (simp add: a d dists_two_near)
  moreover from u(1) have "i = 1 \<or> i = 2" by (auto simp: a)
  ultimately have "i = 1" by linarith
  then have "?r = (Some 1, Fin 5)" using i u(2) d by (simp add: prod_eq_iff)
  then show ?thesis using s a dists_two_near by (intro conjI)
qed

text \<open>
  The claim as written fails when the least distance is 99999 or more: two active tracks lie
  at exactly 100000 from the centroid, and the scan ends with no track selected.
\<close>

theorem tie_sentinel_counterexample:
  "active 0 (tracks two_far) = [(1, far_left), (2, far_right)] \<and>
   dist_to (centerOf (det_box wide_det)) far_left = Fin 100000 \<and>
   dist_to (centerOf (det_box wide_det)) far_right = Fin 100000 \<and>
   fst (nearest 0 (centerOf (det_box wide_det)) (tracks two_far) (None, Fin 99999)) = None"
proof -
  have a: "active 0 (tracks two_far) = [(1, far_left), (2, far_right)]"
    by (simp add: active_def age_def nsub_def two_far_def far_left_def far_right_def)
  have d: "dist_to (centerOf (det_box wide_det)) far_left = Fin 100000"
    "dist_to (centerOf (det_box wide_det)) far_right = Fin 100000"
    by (simp_all add: dist_to_def centerOf_def nsub_def wide_det_def far_left_def far_right_def
        hypot_100000 del: hypot.simps)
  have "fst (nearest 0 (centerOf (det_box wide_det)) (tracks two_far) (None, Fin 99999)) = None"
    using d by (simp add: two_far_def)
  then show ?thesis using a d by (intro conjI)
qed

end
